theory Spec2Isabelle
  imports Complex_Main
begin

section \<open>SQL Server dialect backend: object-name rules\<close>




text \<open>A parameter value of an \<open>EXEC\<close> call: the source casts it to \<open>StringLiteral\<close>.\<close>

datatype ParameterValue = StringLiteral string | NotAStringLiteral

text \<open>
  \<open>ExecutableProcedureReference r ps\<close>: \<open>r\<close> is the base identifier of the procedure
  reference (\<open>None\<close> when \<open>ProcedureReference\<close> is null), \<open>ps\<close> the parameter values.
\<close>

datatype ExecutableEntity =
    ExecutableProcedureReference "string option" "ParameterValue list"
  | OtherExecutableEntity


















section \<open>Task orchestration: data model\<close>

text \<open>
  The packages \<open>model\<close>, \<open>inspector\<close> and \<open>errors\<close> are used by the scheduler but
  are not among the sources at hand. String-valued fields that the scheduler compares
  with named constants of \<open>model\<close> are datatypes: one constructor for each constant the
  scheduler names (the constants are taken to be pairwise different) and one for any
  other string. An unset field is \<open>Other []\<close>.
\<close>

datatype sql_type =
    SQL_TYPE_DML
  | SQL_TYPE_DDL
  | SQL_TYPE_MULTI
  | SQL_TYPE_PROCEDURE_FUNCTION
  | SQL_TYPE_PROCEDURE_FUNCTION_MULTI
  | SQL_TYPE_Other string

datatype exec_status =
    SQLExecuteStatusDoing
  | SQLExecuteStatusFailed
  | SQLExecuteStatus_Other string

datatype task_status =
    TaskStatusAudited
  | TaskStatusExecuting
  | TaskStatusExecuteSucceeded
  | TaskStatusExecuteFailed
  | TaskStatus_Other string

datatype audit_level = RULE_LEVEL_NORMAL | RULE_LEVEL_Other string

datatype sql_source = TaskSQLSourceFromMyBatisXMLFile | TaskSQLSource_Other string

datatype action_typ =
    TASK_ACTION_AUDIT
  | TASK_ACTION_EXECUTE
  | TASK_ACTION_ROLLBACK
  | TASK_ACTION_Other int

text \<open>
  Error values: the two coded errors \<open>addTask\<close> builds, the two conflict errors of
  package \<open>errors\<close>, and \<open>Errorf m\<close> for \<open>fmt.Errorf(m)\<close> and for whatever error a
  collaborator returns.
\<close>

datatype error =
    TASK_RUNNING
  | TASK_NOT_EXIST
  | SQL_STMT_CONFLICT_ERROR
  | SQL_STMT_PROCEUDRE_FUNCTION_ERROR
  | Errorf string

text \<open>
  \<open>ExecuteSQL\<close> and \<open>RollbackSQL\<close> embed \<open>BaseSQL\<close>; a function on
  \<open>'a BaseSQL_scheme\<close> is one that takes the pointer to the embedded \<open>BaseSQL\<close>.
  \<open>PassRate\<close> is a \<open>float64\<close> in the source and an exact rational here.
\<close>

record BaseSQL =
  Number :: nat
  Content :: string
  Stmts :: "string list"
  ExecStatus :: exec_status
  ExecResult :: string

record ExecuteSQL = BaseSQL +
  AuditStatus :: string
  AuditResult :: string
  AuditLevel :: audit_level

type_synonym RollbackSQL = BaseSQL

record Task =
  ID :: nat
  InstanceId :: nat
  SQLSource :: sql_source
  ExecuteSQLs :: "ExecuteSQL list"
  RollbackSQLs :: "RollbackSQL list"
  SQLType :: sql_type
  PassRate :: rat
  Status :: task_status

type_synonym rule = string

subsection \<open>The collaborators: task store and inspector\<close>

text \<open>
  Every call the workflows make on the task store (\<open>model.GetStorage()\<close>), on an
  inspector or on a logger is recorded, in order, as an event. The history of events is
  all a collaborator can depend on: each collaborator is a function of the history so
  far and of the arguments of the call, so that it may answer the same call differently
  at different times. Some events also carry the answer, where a property below reads it
  off the history.
\<close>

datatype saved = Save_ExecuteSQL ExecuteSQL | Save_RollbackSQL RollbackSQL

datatype event =
    EvGetTaskDetailById string
  | EvGetRulesByInstanceId nat
  | EvGetRelatedDDLTask "error + Task list"
  | EvUpdateExecuteSQLs "ExecuteSQL list" "error option"
  | EvUpdateTask sql_type rat task_status
  | EvUpdateRollbackSQLs "RollbackSQL list"
  | EvUpdateExecuteSqlStatus BaseSQL exec_status string
  | EvUpdateRollbackSqlStatus BaseSQL exec_status string
  | EvSave saved "error option"
  | EvUpdateTaskStatusById nat task_status "error option"
  | EvUpdateExecuteSQLStatusByTaskId nat exec_status
  | EvAdvise "Task list"
  | EvGenerateAllRollbackSql "error + RollbackSQL list"
  | EvParseSqlType
  | EvParseSql string
  | EvAdd BaseSQL
  | EvGetProcedureFunctionBackupSql string
  | EvCommitDDL BaseSQL "error option"
  | EvCommitDMLs "BaseSQL list"
  | EvLog string

record env =
  st_GetTaskDetailById :: "event list \<Rightarrow> string \<Rightarrow> error + Task option"
  ValidAction :: "Task \<Rightarrow> action_typ \<Rightarrow> error option"
  st_GetRulesByInstanceId :: "event list \<Rightarrow> nat \<Rightarrow> error + rule list"
  st_GetRelatedDDLTask :: "event list \<Rightarrow> Task \<Rightarrow> error + Task list"
  st_UpdateExecuteSQLs :: "event list \<Rightarrow> Task \<Rightarrow> ExecuteSQL list \<Rightarrow> error option"
  st_UpdateTask :: "event list \<Rightarrow> Task \<Rightarrow> sql_type \<Rightarrow> rat \<Rightarrow> task_status \<Rightarrow> error option"
  st_UpdateRollbackSQLs :: "event list \<Rightarrow> Task \<Rightarrow> RollbackSQL list \<Rightarrow> error option"
  st_UpdateExecuteSqlStatus :: "event list \<Rightarrow> BaseSQL \<Rightarrow> exec_status \<Rightarrow> string \<Rightarrow> error option"
  st_UpdateRollbackSqlStatus :: "event list \<Rightarrow> BaseSQL \<Rightarrow> exec_status \<Rightarrow> string \<Rightarrow> error option"
  st_Save :: "event list \<Rightarrow> saved \<Rightarrow> error option"
  st_UpdateTaskStatusById :: "event list \<Rightarrow> nat \<Rightarrow> task_status \<Rightarrow> error option"
  st_UpdateExecuteSQLStatusByTaskId :: "event list \<Rightarrow> Task \<Rightarrow> exec_status \<Rightarrow> error option"
  i_Advise :: "event list \<Rightarrow> Task \<Rightarrow> Task list \<Rightarrow> rule list \<Rightarrow> error + ExecuteSQL list"
  i_SqlInvalid :: "event list \<Rightarrow> bool"
  i_SqlType :: "event list \<Rightarrow> sql_type"
  i_GenerateAllRollbackSql :: "event list \<Rightarrow> Task \<Rightarrow> error + RollbackSQL list"
  i_ParseSqlType :: "event list \<Rightarrow> Task \<Rightarrow> error option"
  i_ParseSql :: "event list \<Rightarrow> string \<Rightarrow> error + string list"
  i_Add :: "event list \<Rightarrow> BaseSQL \<Rightarrow> error option"
  i_GetProcedureFunctionBackupSql :: "event list \<Rightarrow> string \<Rightarrow> error + string list"
  i_CommitDDL :: "event list \<Rightarrow> BaseSQL \<Rightarrow> (exec_status \<times> string) \<times> error option"
  i_CommitDMLs :: "event list \<Rightarrow> BaseSQL list \<Rightarrow> (exec_status \<times> string) list"

section \<open>The audit workflow\<close>

text \<open>
  \<open>round(f, n)\<close> with \<open>math.Pow10\<close> and \<open>math.Trunc\<close> (rounding towards zero), over
  the rationals.
\<close>

definition Pow10 :: "int \<Rightarrow> rat" where
  "Pow10 n = (if 0 \<le> n then 10 ^ nat n else 1 / 10 ^ nat (- n))"

definition Trunc :: "rat \<Rightarrow> rat" where
  "Trunc x = (if 0 \<le> x then of_int \<lfloor>x\<rfloor> else of_int \<lceil>x\<rceil>)"

definition round_f :: "rat \<Rightarrow> int \<Rightarrow> rat" where
  "round_f f n = (let p = Pow10 n in Trunc (f * p + 1 / 2) / p)"

text \<open>The loop of \<open>audit\<close> that counts the statements of level \<open>RULE_LEVEL_NORMAL\<close>.\<close>

fun normalCount_loop :: "rat \<Rightarrow> ExecuteSQL list \<Rightarrow> rat" where
  "normalCount_loop normalCount [] = normalCount"
| "normalCount_loop normalCount (sql # sqls) =
     normalCount_loop
       (if AuditLevel sql = RULE_LEVEL_NORMAL then normalCount + 1 else normalCount) sqls"

text \<open>
  A workflow takes the history and the task (the struct behind the pointer) and returns
  the history, the task as it is in memory afterwards, and the error it returns.

  \<open>inspector.Advise\<close> writes the audit fields of the task's statements; its answer is
  the statement list afterwards. \<open>SqlInvalid\<close> and \<open>SqlType\<close> read the inspector that
  was advised last.

  \<open>audit_advise\<close> is the part of \<open>audit\<close> from the first \<open>Advise\<close> to the end of the
  retry block; it yields \<open>firstSqlInvalid\<close> and \<open>sqlType\<close>.
\<close>

definition audit_advise ::
  "env \<Rightarrow> event list \<Rightarrow> Task \<Rightarrow> rule list \<Rightarrow> event list \<times> Task \<times> (error + bool \<times> sql_type)" where
  "audit_advise env h task rules =
     (case i_Advise env h task [] rules of
        Inl err \<Rightarrow> (h @ [EvAdvise []], task, Inl err)
      | Inr sqls \<Rightarrow>
          (let h1 = h @ [EvAdvise []];
               task1 = task\<lparr>ExecuteSQLs := sqls\<rparr>;
               firstSqlInvalid = i_SqlInvalid env h1;
               sqlType = i_SqlType env h1
           in if sqlType = SQL_TYPE_DML \<and> i_SqlInvalid env h1 then
                (case st_GetRelatedDDLTask env h1 task1 of
                   Inl err \<Rightarrow> (h1 @ [EvGetRelatedDDLTask (Inl err)], task1, Inl err)
                 | Inr relateTasks \<Rightarrow>
                     (let h2 = h1 @ [EvGetRelatedDDLTask (Inr relateTasks)] in
                      if length relateTasks > 0 then
                        (let h3 = h2 @ [EvLog ''dml sql invalid, retry advise with relate ddl'']
                         in case i_Advise env h3 task1 relateTasks rules of
                              Inl err \<Rightarrow> (h3 @ [EvAdvise relateTasks], task1, Inl err)
                            | Inr sqls2 \<Rightarrow>
                                (h3 @ [EvAdvise relateTasks], task1\<lparr>ExecuteSQLs := sqls2\<rparr>,
                                 Inr (firstSqlInvalid, sqlType)))
                      else (h2, task1, Inr (firstSqlInvalid, sqlType))))
              else (h1, task1, Inr (firstSqlInvalid, sqlType))))"

text \<open>The block of \<open>audit\<close> under "generate rollback after advise".\<close>

definition audit_generate ::
  "env \<Rightarrow> event list \<Rightarrow> Task \<Rightarrow> bool \<Rightarrow> event list \<times> (error + RollbackSQL list)" where
  "audit_generate env h task firstSqlInvalid =
     (if firstSqlInvalid then
        (h @ [EvLog ''sql invalid, ignore generate rollback''], Inr [])
      else if SQLSource task = TaskSQLSourceFromMyBatisXMLFile then
        (h @ [EvLog ''task is mybatis xml file audit, ignore generate rollback''], Inr [])
      else (h @ [EvGenerateAllRollbackSql (i_GenerateAllRollbackSql env h task)],
            i_GenerateAllRollbackSql env h task))"

text \<open>The rest of \<open>audit\<close>: persisting the statements, the task fields and the rollback
  statements.\<close>

definition audit_save ::
  "env \<Rightarrow> event list \<Rightarrow> Task \<Rightarrow> sql_type \<Rightarrow> RollbackSQL list \<Rightarrow> event list \<times> Task \<times> error option" where
  "audit_save env h task sqlType rollbackSqls =
     (case st_UpdateExecuteSQLs env h task (ExecuteSQLs task) of
        Some err \<Rightarrow>
          (h @ [EvUpdateExecuteSQLs (ExecuteSQLs task) (Some err),
                EvLog ''save commit sql to storage failed''], task, Some err)
      | None \<Rightarrow>
          (let h1 = h @ [EvUpdateExecuteSQLs (ExecuteSQLs task) None];
               normalCount = normalCount_loop 0 (ExecuteSQLs task);
               task1 = (if length (ExecuteSQLs task) \<noteq> 0
                        then task\<lparr>PassRate :=
                               round_f (normalCount / of_nat (length (ExecuteSQLs task))) 4\<rparr>
                        else task);
               task2 = task1\<lparr>Status := TaskStatusAudited\<rparr>
           in case st_UpdateTask env h1 task2 sqlType (PassRate task2) (Status task2) of
                Some err \<Rightarrow>
                  (h1 @ [EvUpdateTask sqlType (PassRate task2) (Status task2),
                         EvLog ''update task to storage failed''], task2, Some err)
              | None \<Rightarrow>
                  (let h2 = h1 @ [EvUpdateTask sqlType (PassRate task2) (Status task2)] in
                   if length rollbackSqls > 0 then
                     (case st_UpdateRollbackSQLs env h2 task2 rollbackSqls of
                        Some err \<Rightarrow>
                          (h2 @ [EvUpdateRollbackSQLs rollbackSqls,
                                 EvLog ''save rollback sql to storage failed''], task2, Some err)
                      | None \<Rightarrow> (h2 @ [EvUpdateRollbackSQLs rollbackSqls], task2, None))
                   else (h2, task2, None))))"

definition audit :: "env \<Rightarrow> event list \<Rightarrow> Task \<Rightarrow> event list \<times> Task \<times> error option" where
  "audit env h task =
     (case st_GetRulesByInstanceId env h (InstanceId task) of
        Inl err \<Rightarrow>
          (h @ [EvGetRulesByInstanceId (InstanceId task),
                EvLog ''get instance rule from storage failed''], task, Some err)
      | Inr rules \<Rightarrow>
          (case audit_advise env (h @ [EvGetRulesByInstanceId (InstanceId task)]) task rules of
             (h1, task1, Inl err) \<Rightarrow> (h1, task1, Some err)
           | (h1, task1, Inr (firstSqlInvalid, sqlType)) \<Rightarrow>
               (case audit_generate env h1 task1 firstSqlInvalid of
                  (h2, Inl err) \<Rightarrow> (h2, task1, Some err)
                | (h2, Inr rollbackSqls) \<Rightarrow> audit_save env h2 task1 sqlType rollbackSqls)))"

section \<open>The commit workflow\<close>

text \<open>
  Modelled from the spec: \<open>inspector.Add\<close> and \<open>inspector.Do\<close> are not among the
  sources at hand. \<open>Add\<close> checks the statement (it may fail) and registers it with its
  action, running nothing. \<open>Do\<close> runs the registered actions one at a time in the
  order of registration and stops at the first failure, which it returns. The statements
  stay where they are, in the task's list; \<open>added\<close> says which of them were registered.
\<close>

definition Add :: "env \<Rightarrow> event list \<Rightarrow> BaseSQL \<Rightarrow> event list \<times> error option" where
  "Add env h sql = (h @ [EvAdd sql], i_Add env h sql)"

fun Do ::
  "('s \<Rightarrow> bool) \<Rightarrow> (event list \<Rightarrow> 's \<Rightarrow> event list \<times> 's \<times> error option)
     \<Rightarrow> event list \<Rightarrow> 's list \<Rightarrow> event list \<times> 's list \<times> error option" where
  "Do added action h [] = (h, [], None)"
| "Do added action h (sql # sqls) =
     (if added sql then
        (case action h sql of
           (h1, sql1, Some err) \<Rightarrow> (h1, sql1 # sqls, Some err)
         | (h1, sql1, None) \<Rightarrow>
             (case Do added action h1 sqls of (h2, sqls2, e) \<Rightarrow> (h2, sql1 # sqls2, e)))
      else (case Do added action h sqls of (h2, sqls2, e) \<Rightarrow> (h2, sql # sqls2, e)))"

text \<open>
  Modelled from the spec: \<open>UpdateExecuteSqlStatus\<close> and \<open>UpdateRollbackSqlStatus\<close> of
  the store are not among the sources at hand; they flip the statement's execution
  status in memory and persist it. The inspector's \<open>CommitDDL\<close> and \<open>CommitDMLs\<close>
  write the execution status and result of the statements they are given:
  \<open>set_exec\<close> writes the answers of the backend, in order.
\<close>

fun set_exec :: "'a BaseSQL_scheme list \<Rightarrow> (exec_status \<times> string) list \<Rightarrow> 'a BaseSQL_scheme list" where
  "set_exec [] rs = []"
| "set_exec (sql # sqls) [] = sql # sqls"
| "set_exec (sql # sqls) (r # rs) =
     sql\<lparr>ExecStatus := fst r, ExecResult := snd r\<rparr> # set_exec sqls rs"

text \<open>The loop of \<open>commitDDL\<close> that registers every statement of the task.\<close>

fun commitDDL_Add :: "env \<Rightarrow> event list \<Rightarrow> ExecuteSQL list \<Rightarrow> event list \<times> error option" where
  "commitDDL_Add env h [] = (h, None)"
| "commitDDL_Add env h (commitSql # sqls) =
     (case Add env h (BaseSQL.truncate commitSql) of
        (h1, Some err) \<Rightarrow> (h1 @ [EvLog ''add commit sql to task failed''], Some err)
      | (h1, None) \<Rightarrow> commitDDL_Add env h1 sqls)"

text \<open>The loop over \<open>backupSqls\<close>: a failed backup statement is logged, nothing else.\<close>

fun commitDDL_backup :: "env \<Rightarrow> event list \<Rightarrow> string list \<Rightarrow> event list" where
  "commitDDL_backup env h [] = h"
| "commitDDL_backup env h (backupSql # backupSqls) =
     (let backupSqlModel = \<lparr>Number = 0, Content = backupSql, Stmts = [],
                              ExecStatus = SQLExecuteStatus_Other [], ExecResult = []\<rparr>
      in case snd (i_CommitDDL env h backupSqlModel) of
           Some err \<Rightarrow>
             commitDDL_backup env
               (h @ [EvCommitDDL backupSqlModel (Some err),
                     EvLog ''create procedure function backup failed'']) backupSqls
         | None \<Rightarrow> commitDDL_backup env (h @ [EvCommitDDL backupSqlModel None]) backupSqls)"

text \<open>The action \<open>commitDDL\<close> registers for a statement.\<close>

definition commitDDL_action ::
  "env \<Rightarrow> bool \<Rightarrow> event list \<Rightarrow> ExecuteSQL \<Rightarrow> event list \<times> ExecuteSQL \<times> error option" where
  "commitDDL_action env isProcedureFunction h currentSql =
     (let h1 = h @ [EvUpdateExecuteSqlStatus (BaseSQL.truncate currentSql) SQLExecuteStatusDoing []];
          sql = currentSql\<lparr>ExecStatus := SQLExecuteStatusDoing\<rparr>
      in case st_UpdateExecuteSqlStatus env h (BaseSQL.truncate currentSql) SQLExecuteStatusDoing [] of
           Some err \<Rightarrow>
             (h1 @ [EvLog ''update commit sql status to storage failed''], sql, Some err)
         | None \<Rightarrow>
             (case (if isProcedureFunction then
                      (case i_GetProcedureFunctionBackupSql env h1 (Content sql) of
                         Inl err \<Rightarrow>
                           (h1 @ [EvGetProcedureFunctionBackupSql (Content sql),
                                  EvLog ''get procedure function backup sql failed''], Some err)
                       | Inr backupSqls \<Rightarrow>
                           (commitDDL_backup env
                              (h1 @ [EvGetProcedureFunctionBackupSql (Content sql)]) backupSqls,
                            None))
                    else (h1, None)) of
                (h2, Some err) \<Rightarrow> (h2, sql, Some err)
              | (h2, None) \<Rightarrow>
                  (let r = fst (i_CommitDDL env h2 (BaseSQL.truncate sql));
                       sql2 = sql\<lparr>ExecStatus := fst r, ExecResult := snd r\<rparr>;
                       h3 = h2 @ [EvCommitDDL (BaseSQL.truncate sql)
                                    (snd (i_CommitDDL env h2 (BaseSQL.truncate sql)))];
                       err = st_Save env h3 (Save_ExecuteSQL sql2);
                       h4 = h3 @ [EvSave (Save_ExecuteSQL sql2) err] @
                            (if err \<noteq> None then [EvLog ''save commit sql to storage failed'']
                             else [])
                   in if ExecResult sql2 \<noteq> ''ok''
                      then (h4, sql2, Some (Errorf ''exec ddl commit sql failed''))
                      else (h4, sql2, err))))"

text \<open>The loop at the end of \<open>commitDDL\<close> and \<open>commitDML\<close> that chooses the task
  status; it stops at the first failed statement.\<close>

fun taskStatus_loop :: "task_status \<Rightarrow> 'a BaseSQL_scheme list \<Rightarrow> task_status" where
  "taskStatus_loop taskStatus [] = taskStatus"
| "taskStatus_loop taskStatus (sql # sqls) =
     (if ExecStatus sql = SQLExecuteStatusFailed then TaskStatusExecuteFailed
      else taskStatus_loop taskStatus sqls)"

definition commitDDL ::
  "env \<Rightarrow> event list \<Rightarrow> Task \<Rightarrow> bool \<Rightarrow> event list \<times> Task \<times> error option" where
  "commitDDL env h task isProcedureFunction =
     (case commitDDL_Add env (h @ [EvLog ''start commit'']) (ExecuteSQLs task) of
        (h1, Some err) \<Rightarrow> (h1, task, Some err)
      | (h1, None) \<Rightarrow>
          (case st_UpdateTaskStatusById env h1 (ID task) TaskStatusExecuting of
             Some err \<Rightarrow>
               (h1 @ [EvUpdateTaskStatusById (ID task) TaskStatusExecuting (Some err)],
                task, Some err)
           | None \<Rightarrow>
               (case Do (\<lambda>sql. True) (commitDDL_action env isProcedureFunction)
                       (h1 @ [EvUpdateTaskStatusById (ID task) TaskStatusExecuting None])
                       (ExecuteSQLs task) of
                  (h2, sqls, err) \<Rightarrow>
                    (let h3 = h2 @ [EvLog (if err \<noteq> None then ''commit sql failed''
                                          else ''commit sql finish'')];
                         task1 = task\<lparr>ExecuteSQLs := sqls\<rparr>;
                         taskStatus = taskStatus_loop TaskStatusExecuteSucceeded sqls;
                         r = st_UpdateTaskStatusById env h3 (ID task) taskStatus
                     in (h3 @ [EvUpdateTaskStatusById (ID task) taskStatus r], task1, r)))))"

text \<open>The loop of \<open>commitDML\<close> that parses every statement again.\<close>

fun commitDML_parse ::
  "env \<Rightarrow> event list \<Rightarrow> ExecuteSQL list \<Rightarrow> event list \<times> ExecuteSQL list \<times> error option" where
  "commitDML_parse env h [] = (h, [], None)"
| "commitDML_parse env h (executeSQL # sqls) =
     (case i_ParseSql env h (Content executeSQL) of
        Inl err \<Rightarrow> (h @ [EvParseSql (Content executeSQL)], executeSQL # sqls, Some err)
      | Inr nodes \<Rightarrow>
          (case commitDML_parse env (h @ [EvParseSql (Content executeSQL)]) sqls of
             (h1, sqls1, e) \<Rightarrow> (h1, executeSQL\<lparr>Stmts := nodes\<rparr> # sqls1, e)))"

definition commitDML :: "env \<Rightarrow> event list \<Rightarrow> Task \<Rightarrow> event list \<times> Task \<times> error option" where
  "commitDML env h task =
     (let h0 = h @ [EvLog ''start commit''];
          h1 = h0 @ [EvUpdateExecuteSQLStatusByTaskId (ID task) SQLExecuteStatusDoing]
      in case st_UpdateExecuteSQLStatusByTaskId env h0 task SQLExecuteStatusDoing of
           Some err \<Rightarrow>
             (h1 @ [EvLog ''update commit sql status to storage failed''], task, Some err)
         | None \<Rightarrow>
             (case commitDML_parse env h1 (ExecuteSQLs task) of
                (h2, sqls, Some err) \<Rightarrow> (h2, task\<lparr>ExecuteSQLs := sqls\<rparr>, Some err)
              | (h2, sqls, None) \<Rightarrow>
                  (case st_UpdateTaskStatusById env h2 (ID task) TaskStatusExecuting of
                     Some err \<Rightarrow>
                       (h2 @ [EvUpdateTaskStatusById (ID task) TaskStatusExecuting (Some err)],
                        task\<lparr>ExecuteSQLs := sqls\<rparr>, Some err)
                   | None \<Rightarrow>
                       (let h3 = h2 @ [EvUpdateTaskStatusById (ID task) TaskStatusExecuting None];
                            sqls2 = set_exec sqls (i_CommitDMLs env h3 (map BaseSQL.truncate sqls));
                            h4 = h3 @ [EvCommitDMLs (map BaseSQL.truncate sqls)];
                            task2 = task\<lparr>ExecuteSQLs := sqls2\<rparr>;
                            h5 = h4 @ [EvUpdateExecuteSQLs sqls2
                                         (st_UpdateExecuteSQLs env h4 task2 sqls2)]
                        in case st_UpdateExecuteSQLs env h4 task2 sqls2 of
                             Some err \<Rightarrow>
                               (let h6 = h5 @ [EvLog ''save commit sql to storage failed''];
                                    r = st_UpdateTaskStatusById env h6 (ID task)
                                          TaskStatusExecuteFailed
                                in (h6 @ [EvUpdateTaskStatusById (ID task)
                                            TaskStatusExecuteFailed r] @
                                    (if r \<noteq> None then [EvLog ''update task exec_status failed'']
                                     else []),
                                    task2, Some err))
                           | None \<Rightarrow>
                               (let taskStatus = taskStatus_loop TaskStatusExecuteSucceeded sqls2;
                                    r = st_UpdateTaskStatusById env h5 (ID task) taskStatus
                                in (h5 @ [EvUpdateTaskStatusById (ID task) taskStatus r],
                                    task2, r))))))"

definition commit :: "env \<Rightarrow> event list \<Rightarrow> Task \<Rightarrow> event list \<times> Task \<times> error option" where
  "commit env h task =
     (if SQLType task = SQL_TYPE_DML then commitDML env h task
      else if SQLType task = SQL_TYPE_DDL then commitDDL env h task False
      else if SQLType task = SQL_TYPE_PROCEDURE_FUNCTION then commitDDL env h task True
      else
        (case i_ParseSqlType env h task of
           Some err \<Rightarrow> (h @ [EvParseSqlType], task, Some err)
         | None \<Rightarrow>
             (let h1 = h @ [EvParseSqlType] in
              case i_SqlType env h1 of
                SQL_TYPE_DML \<Rightarrow> commitDML env h1 task
              | SQL_TYPE_DDL \<Rightarrow> commitDDL env h1 task False
              | SQL_TYPE_MULTI \<Rightarrow> (h1, task, Some SQL_STMT_CONFLICT_ERROR)
              | SQL_TYPE_PROCEDURE_FUNCTION \<Rightarrow> commitDDL env h1 task True
              | SQL_TYPE_PROCEDURE_FUNCTION_MULTI \<Rightarrow>
                  (h1, task, Some SQL_STMT_PROCEUDRE_FUNCTION_ERROR)
              | SQL_TYPE_Other x \<Rightarrow> (h1, task, None))))"

section \<open>The rollback workflow\<close>

text \<open>The loop of \<open>rollback\<close> that registers the rollback statements, skipping the
  empty ones.\<close>

fun rollback_Add :: "env \<Rightarrow> event list \<Rightarrow> RollbackSQL list \<Rightarrow> event list \<times> error option" where
  "rollback_Add env h [] = (h, None)"
| "rollback_Add env h (rollbackSql # sqls) =
     (if Content rollbackSql = [] then rollback_Add env h sqls
      else
        (case Add env h rollbackSql of
           (h1, Some err) \<Rightarrow> (h1 @ [EvLog ''add rollback sql to task failed''], Some err)
         | (h1, None) \<Rightarrow> rollback_Add env h1 sqls))"

text \<open>The \<open>switch\<close> on the inspector's SQL type in the action of \<open>rollback\<close>.\<close>

definition rollback_switch ::
  "env \<Rightarrow> event list \<Rightarrow> RollbackSQL \<Rightarrow> event list \<times> RollbackSQL \<times> error option" where
  "rollback_switch env h sql =
     (case i_SqlType env h of
        SQL_TYPE_DDL \<Rightarrow>
          (let r = fst (i_CommitDDL env h sql)
           in (h @ [EvCommitDDL sql (snd (i_CommitDDL env h sql))],
               sql\<lparr>ExecStatus := fst r, ExecResult := snd r\<rparr>, None))
      | SQL_TYPE_DML \<Rightarrow>
          (h @ [EvCommitDMLs [sql]],
           (case set_exec [sql] (i_CommitDMLs env h [sql]) of [sql1] \<Rightarrow> sql1 | _ \<Rightarrow> sql),
           None)
      | SQL_TYPE_MULTI \<Rightarrow>
          (h @ [EvLog ''sql stmt conflict''], sql, Some SQL_STMT_CONFLICT_ERROR)
      | SQL_TYPE_PROCEDURE_FUNCTION \<Rightarrow> (h, sql, None)
      | SQL_TYPE_PROCEDURE_FUNCTION_MULTI \<Rightarrow>
          (h @ [EvLog ''sql stmt procedure function conflict''], sql,
           Some SQL_STMT_PROCEUDRE_FUNCTION_ERROR)
      | SQL_TYPE_Other x \<Rightarrow> (h, sql, None))"

definition rollback_action ::
  "env \<Rightarrow> event list \<Rightarrow> RollbackSQL \<Rightarrow> event list \<times> RollbackSQL \<times> error option" where
  "rollback_action env h currentSql =
     (let h1 = h @ [EvUpdateRollbackSqlStatus currentSql SQLExecuteStatusDoing []];
          sql = currentSql\<lparr>ExecStatus := SQLExecuteStatusDoing\<rparr>
      in case st_UpdateRollbackSqlStatus env h currentSql SQLExecuteStatusDoing [] of
           Some err \<Rightarrow>
             (h1 @ [EvLog ''update rollback sql status to storage failed''], sql, Some err)
         | None \<Rightarrow>
             (case rollback_switch env h1 sql of
                (h2, sql2, Some err) \<Rightarrow> (h2, sql2, Some err)
              | (h2, sql2, None) \<Rightarrow>
                  (let err = st_Save env h2 (Save_RollbackSQL sql2)
                   in (h2 @ [EvSave (Save_RollbackSQL sql2) err] @
                       (if err \<noteq> None then [EvLog ''save commit sql to storage failed'']
                        else []),
                       sql2, err))))"

definition rollback :: "env \<Rightarrow> event list \<Rightarrow> Task \<Rightarrow> event list \<times> Task \<times> error option" where
  "rollback env h task =
     (case rollback_Add env (h @ [EvLog ''start rollback sql'']) (RollbackSQLs task) of
        (h1, Some err) \<Rightarrow> (h1, task, Some err)
      | (h1, None) \<Rightarrow>
          (case Do (\<lambda>sql. Content sql \<noteq> []) (rollback_action env) h1 (RollbackSQLs task) of
             (h2, sqls, err) \<Rightarrow>
               (h2 @ [EvLog (if err \<noteq> None then ''rollback sql failed''
                             else ''rollback sql finish'')],
                task\<lparr>RollbackSQLs := sqls\<rparr>, err)))"

section \<open>The scheduler\<close>

text \<open>\<open>fmt.Sprintf("%d", n)\<close> for an unsigned \<open>n\<close>: the decimal digits of \<open>n\<close>.\<close>

definition digit :: "nat \<Rightarrow> char" where
  "digit d = ''0123456789'' ! d"

function Sprintf_d :: "nat \<Rightarrow> string" where
  "Sprintf_d n = (if n < 10 then [digit n] else Sprintf_d (n div 10) @ [digit (n mod 10)])"
  by pat_completeness auto
termination
  by (relation "measure (\<lambda>n. n)") auto

declare Sprintf_d.simps [simp del]

text \<open>
  An action without its mutex and its \<open>Done\<close> channel; \<open>Task\<close> is \<open>None\<close> for the nil
  pointer. The scheduler is its set of running task ids and its queue (a buffered
  channel, in order of sending; a send is taken not to block). The lock around every
  access of \<open>currentTask\<close> makes each locked block one step.
\<close>

record Action =
  Task :: "Task option"
  Typ :: action_typ
  Error :: "error option"

record Sqled =
  currentTask :: "string set"
  queue :: "Action list"

definition HasTask :: "Sqled \<Rightarrow> string \<Rightarrow> bool" where
  "HasTask s taskId = (taskId \<in> currentTask s)"

text \<open>
  \<open>addTask\<close> returns the history, the scheduler, the action and the error.
  \<open>ValidAction\<close> is a method of \<open>model.Task\<close>, not among the sources at hand: a
  parameter, as the store is.
\<close>

definition addTask ::
  "env \<Rightarrow> event list \<Rightarrow> Sqled \<Rightarrow> string \<Rightarrow> action_typ
     \<Rightarrow> event list \<times> Sqled \<times> Action \<times> error option" where
  "addTask env h s taskId typ =
     (let action = \<lparr>Task = None, Typ = typ, Error = None\<rparr>;
          taskRunning = (taskId \<in> currentTask s);
          s1 = (if \<not> taskRunning then s\<lparr>currentTask := insert taskId (currentTask s)\<rparr> else s)
      in if taskRunning then (h, s1, action, Some TASK_RUNNING)
         else
           (let h1 = h @ [EvGetTaskDetailById taskId];
                label_Error = (\<lambda>err. (h1, s1\<lparr>currentTask := currentTask s1 - {taskId}\<rparr>,
                                       action, Some err))
            in case st_GetTaskDetailById env h taskId of
                 Inl err \<Rightarrow> label_Error err
               | Inr None \<Rightarrow> label_Error TASK_NOT_EXIST
               | Inr (Some task) \<Rightarrow>
                   (case ValidAction env task typ of
                      Some err \<Rightarrow> label_Error err
                    | None \<Rightarrow>
                        (let action1 = action\<lparr>Task := Some task\<rparr>
                         in (h1, s1\<lparr>queue := queue s1 @ [action1]\<rparr>, action1, None)))))"

definition AddTask ::
  "env \<Rightarrow> event list \<Rightarrow> Sqled \<Rightarrow> string \<Rightarrow> action_typ \<Rightarrow> event list \<times> Sqled \<times> error option" where
  "AddTask env h s taskId typ =
     (case addTask env h s taskId typ of (h1, s1, action, err) \<Rightarrow> (h1, s1, err))"

text \<open>
  \<open>do\<close> runs the workflow of the action and then deletes the decimal rendering of the
  task's numeric id from \<open>currentTask\<close>. It is \<open>None\<close> where the source dereferences a
  nil task.
\<close>

definition do ::
  "env \<Rightarrow> event list \<Rightarrow> Sqled \<Rightarrow> Action \<Rightarrow> (event list \<times> Sqled \<times> Action \<times> error option) option" where
  "do env h s action =
     (case Task action of
        None \<Rightarrow> None
      | Some task \<Rightarrow>
          (case (case Typ action of
                   TASK_ACTION_AUDIT \<Rightarrow> audit env h task
                 | TASK_ACTION_EXECUTE \<Rightarrow> commit env h task
                 | TASK_ACTION_ROLLBACK \<Rightarrow> rollback env h task
                 | TASK_ACTION_Other x \<Rightarrow> (h, task, None)) of
             (h1, task1, err) \<Rightarrow>
               (let action1 = action\<lparr>Task := Some task1,
                                      Error := (if err \<noteq> None then err else Error action)\<rparr>;
                    taskId = Sprintf_d (ID task1)
                in Some (h1, s\<lparr>currentTask := currentTask s - {taskId}\<rparr>, action1, err))))"

text \<open>One turn of \<open>taskLoop\<close>: the action at the head of the queue is received and run.\<close>

definition taskLoop_step ::
  "env \<Rightarrow> event list \<Rightarrow> Sqled \<Rightarrow> (event list \<times> Sqled \<times> Action \<times> error option) option" where
  "taskLoop_step env h s =
     (case queue s of
        [] \<Rightarrow> None
      | action # rest \<Rightarrow> do env h (s\<lparr>queue := rest\<rparr>) action)"

subsection \<open>Interleavings of the scheduler\<close>

text \<open>
  \<open>addTask\<close> is called from many goroutines and \<open>taskLoop\<close> starts one goroutine per
  action, so the steps of several calls interleave. The only shared data are
  \<open>currentTask\<close>, always read and written under the lock, and the queue. A state of
  the interleaving records \<open>currentTask\<close> and, under the id string it was called
  with, every call of \<open>addTask\<close> that has inserted its id and not yet returned
  (\<open>validating\<close>), every action waiting in the queue, and every action handed to \<open>do\<close>
  that has not yet deleted its key. The steps are the critical sections of the source:
  the test and insertion at the head of \<open>addTask\<close>, its deletion at the label
  \<open>Error\<close>, the send to the queue (after the store has returned a task that passed
  \<open>ValidAction\<close>), the receive in \<open>taskLoop\<close>, and the deletion in \<open>do\<close>. A workflow
  does not change the numeric id of its task, so \<open>do\<close> deletes the decimal rendering of
  the id of the task that was enqueued.
\<close>

record flights =
  cur :: "string set"
  validating :: "string list"
  queued :: "(string \<times> Task) list"
  executing :: "(string \<times> Task) list"

definition flights0 :: flights where
  "flights0 = \<lparr>cur = {}, validating = [], queued = [], executing = []\<rparr>"

inductive sched_step :: "env \<Rightarrow> flights \<Rightarrow> flights \<Rightarrow> bool" for env where
  guard_taken:
    "taskId \<notin> cur s \<Longrightarrow>
     sched_step env s (s\<lparr>cur := insert taskId (cur s), validating := taskId # validating s\<rparr>)"
| guard_refused:
    "taskId \<in> cur s \<Longrightarrow> sched_step env s s"
| validation_failed:
    "taskId \<in> set (validating s) \<Longrightarrow>
     sched_step env s (s\<lparr>cur := cur s - {taskId}, validating := remove1 taskId (validating s)\<rparr>)"
| enqueued:
    "taskId \<in> set (validating s) \<Longrightarrow>
     st_GetTaskDetailById env h taskId = Inr (Some task) \<Longrightarrow>
     ValidAction env task typ = None \<Longrightarrow>
     sched_step env s (s\<lparr>validating := remove1 taskId (validating s),
                         queued := queued s @ [(taskId, task)]\<rparr>)"
| dispatched:
    "queued s = a # rest \<Longrightarrow>
     sched_step env s (s\<lparr>queued := rest, executing := a # executing s\<rparr>)"
| finished:
    "(taskId, task) \<in> set (executing s) \<Longrightarrow>
     sched_step env s (s\<lparr>cur := cur s - {Sprintf_d (ID task)},
                         executing := remove1 (taskId, task) (executing s)\<rparr>)"

text \<open>The ids under which something is in flight, with repetitions.\<close>

definition in_flight :: "flights \<Rightarrow> string list" where
  "in_flight s = validating s @ map fst (queued s) @ map fst (executing s)"

text \<open>
  A store is canonical when it finds a task only under the decimal rendering of the
  task's numeric id.
\<close>

definition canonical_store :: "env \<Rightarrow> bool" where
  "canonical_store env =
     (\<forall>h taskId task. st_GetTaskDetailById env h taskId = Inr (Some task)
        \<longrightarrow> Sprintf_d (ID task) = taskId)"

definition keys_canonical :: "flights \<Rightarrow> bool" where
  "keys_canonical s =
     list_all (\<lambda>a. Sprintf_d (ID (snd a)) = fst a) (queued s @ executing s)"

definition guard_inv :: "flights \<Rightarrow> bool" where
  "guard_inv s = (distinct (in_flight s) \<and> set (in_flight s) = cur s \<and> keys_canonical s)"


section \<open>Reading a history\<close>

text \<open>The events a workflow added to the history \<open>h\<close> it started from.\<close>

definition new_events :: "event list \<Rightarrow> event list \<Rightarrow> event list" where
  "new_events h h' = drop (length h) h'"

text \<open>The events that run a statement on the database, the events that write to the
  task store, and among these the ones that write fields of the task itself.\<close>

fun executes :: "event \<Rightarrow> bool" where
  "executes (EvCommitDDL sql r) = True"
| "executes (EvCommitDMLs sqls) = True"
| "executes e = False"

fun updates_store :: "event \<Rightarrow> bool" where
  "updates_store (EvUpdateExecuteSQLs sqls r) = True"
| "updates_store (EvUpdateTask t p st) = True"
| "updates_store (EvUpdateRollbackSQLs sqls) = True"
| "updates_store (EvUpdateExecuteSqlStatus sql st r) = True"
| "updates_store (EvUpdateRollbackSqlStatus sql st r) = True"
| "updates_store (EvSave x r) = True"
| "updates_store (EvUpdateTaskStatusById i st r) = True"
| "updates_store (EvUpdateExecuteSQLStatusByTaskId i st) = True"
| "updates_store e = False"

fun writes_task_fields :: "event \<Rightarrow> bool" where
  "writes_task_fields (EvUpdateTask t p st) = True"
| "writes_task_fields (EvUpdateTaskStatusById i st r) = True"
| "writes_task_fields e = False"

subsection \<open>What a history says\<close>

text \<open>
  The functions below read a list of events: the pass rates written with \<open>UpdateTask\<close>,
  the contexts (related tasks) of the \<open>Advise\<close> passes, the answers of
  \<open>GetRelatedDDLTask\<close> and of \<open>GenerateAllRollbackSql\<close>, the rollback statements
  given to \<open>UpdateRollbackSQLs\<close>, the task statuses written (and those attempted) with
  \<open>UpdateTaskStatusById\<close>, the statements run on the database, the answers of \<open>Save\<close>
  and the errors of \<open>UpdateExecuteSQLs\<close>, each in order.
\<close>

fun pass_rate_write :: "event \<Rightarrow> rat list" where
  "pass_rate_write (EvUpdateTask t p st) = [p]"
| "pass_rate_write e = []"

definition pass_rate_writes :: "event list \<Rightarrow> rat list" where
  "pass_rate_writes evs = concat (map pass_rate_write evs)"

fun advise_context :: "event \<Rightarrow> Task list list" where
  "advise_context (EvAdvise relateTasks) = [relateTasks]"
| "advise_context e = []"

definition advise_contexts :: "event list \<Rightarrow> Task list list" where
  "advise_contexts evs = concat (map advise_context evs)"

fun related_lookup :: "event \<Rightarrow> (error + Task list) list" where
  "related_lookup (EvGetRelatedDDLTask r) = [r]"
| "related_lookup e = []"

definition related_lookups :: "event list \<Rightarrow> (error + Task list) list" where
  "related_lookups evs = concat (map related_lookup evs)"

fun generation :: "event \<Rightarrow> (error + RollbackSQL list) list" where
  "generation (EvGenerateAllRollbackSql r) = [r]"
| "generation e = []"

definition generations :: "event list \<Rightarrow> (error + RollbackSQL list) list" where
  "generations evs = concat (map generation evs)"

fun persisted_rollback :: "event \<Rightarrow> RollbackSQL list list" where
  "persisted_rollback (EvUpdateRollbackSQLs sqls) = [sqls]"
| "persisted_rollback e = []"

definition persisted_rollbacks :: "event list \<Rightarrow> RollbackSQL list list" where
  "persisted_rollbacks evs = concat (map persisted_rollback evs)"

fun status_write :: "event \<Rightarrow> task_status list" where
  "status_write (EvUpdateTaskStatusById i st r) = (if r = None then [st] else [])"
| "status_write e = []"

definition status_writes :: "event list \<Rightarrow> task_status list" where
  "status_writes evs = concat (map status_write evs)"

fun executed_by :: "event \<Rightarrow> BaseSQL list" where
  "executed_by (EvCommitDDL sql r) = [sql]"
| "executed_by (EvCommitDMLs sqls) = sqls"
| "executed_by e = []"

definition executed :: "event list \<Rightarrow> BaseSQL list" where
  "executed evs = concat (map executed_by evs)"

fun save_result :: "event \<Rightarrow> error option list" where
  "save_result (EvSave x r) = [r]"
| "save_result e = []"

definition save_results :: "event list \<Rightarrow> error option list" where
  "save_results evs = concat (map save_result evs)"

fun status_attempt :: "event \<Rightarrow> task_status list" where
  "status_attempt (EvUpdateTaskStatusById i st r) = [st]"
| "status_attempt e = []"

definition status_attempts :: "event list \<Rightarrow> task_status list" where
  "status_attempts evs = concat (map status_attempt evs)"

fun persist_failure :: "event \<Rightarrow> error list" where
  "persist_failure (EvUpdateExecuteSQLs sqls (Some err)) = [err]"
| "persist_failure e = []"

definition persist_failures :: "event list \<Rightarrow> error list" where
  "persist_failures evs = concat (map persist_failure evs)"

text \<open>
  Every event that runs a statement comes after a successful write of the status
  \<open>TaskStatusExecuting\<close> for task \<open>i\<close> (\<open>is_set\<close>: the write has already happened).
\<close>

fun executing_before_exec :: "nat \<Rightarrow> bool \<Rightarrow> event list \<Rightarrow> bool" where
  "executing_before_exec i is_set [] = True"
| "executing_before_exec i is_set (e # es) =
     ((executes e \<longrightarrow> is_set)
      \<and> executing_before_exec i
          (is_set \<or> e = EvUpdateTaskStatusById i TaskStatusExecuting None) es)"

text \<open>
  Every failed \<open>CommitDDL\<close> in the list is followed at once by the log entry of the
  backup loop.
\<close>

fun failures_logged :: "event list \<Rightarrow> bool" where
  "failures_logged [] = True"
| "failures_logged (EvCommitDDL sql (Some err) # es) =
     (case es of
        EvLog m # es' \<Rightarrow> m = ''create procedure function backup failed'' \<and> failures_logged es'
      | _ \<Rightarrow> False)"
| "failures_logged (e # es) = failures_logged es"

text \<open>The kinds of event the phases of the workflows produce.\<close>

fun advise_events :: "event \<Rightarrow> bool" where
  "advise_events (EvAdvise ts) = True"
| "advise_events (EvGetRelatedDDLTask r) = True"
| "advise_events (EvLog m) = True"
| "advise_events e = False"

fun generate_events :: "event \<Rightarrow> bool" where
  "generate_events (EvGenerateAllRollbackSql r) = True"
| "generate_events (EvLog m) = True"
| "generate_events e = False"

fun save_events :: "event \<Rightarrow> bool" where
  "save_events (EvUpdateExecuteSQLs sqls r) = True"
| "save_events (EvUpdateTask t p st) = True"
| "save_events (EvUpdateRollbackSQLs sqls) = True"
| "save_events (EvLog m) = True"
| "save_events e = False"

fun prepare_events :: "event \<Rightarrow> bool" where
  "prepare_events (EvAdd sql) = True"
| "prepare_events (EvParseSql c) = True"
| "prepare_events (EvUpdateExecuteSQLStatusByTaskId i st) = True"
| "prepare_events (EvLog m) = True"
| "prepare_events e = False"

fun action_events :: "event \<Rightarrow> bool" where
  "action_events (EvUpdateExecuteSqlStatus sql st r) = True"
| "action_events (EvGetProcedureFunctionBackupSql c) = True"
| "action_events (EvCommitDDL sql r) = True"
| "action_events (EvSave x r) = True"
| "action_events (EvLog m) = True"
| "action_events e = False"

fun backup_events :: "event \<Rightarrow> bool" where
  "backup_events (EvCommitDDL sql r) = True"
| "backup_events (EvLog m) = True"
| "backup_events e = False"

fun commit_events :: "event \<Rightarrow> bool" where
  "commit_events (EvUpdateTask t p st) = False"
| "commit_events (EvUpdateRollbackSQLs sqls) = False"
| "commit_events (EvUpdateRollbackSqlStatus sql st r) = False"
| "commit_events (EvAdvise ts) = False"
| "commit_events (EvGenerateAllRollbackSql r) = False"
| "commit_events (EvGetRelatedDDLTask r) = False"
| "commit_events (EvGetRulesByInstanceId i) = False"
| "commit_events (EvGetTaskDetailById i) = False"
| "commit_events e = True"

text \<open>\<open>h'\<close> is \<open>h\<close> followed by events that all satisfy \<open>P\<close>.\<close>

definition extends_by :: "(event \<Rightarrow> bool) \<Rightarrow> event list \<Rightarrow> event list \<Rightarrow> bool" where
  "extends_by P h h' = (\<exists>evs. h' = h @ evs \<and> list_all P evs)"

text \<open>The kinds of event the rollback workflow produces.\<close>

fun rollback_events :: "event \<Rightarrow> bool" where
  "rollback_events (EvLog m) = True"
| "rollback_events (EvAdd sql) = True"
| "rollback_events (EvUpdateRollbackSqlStatus sql st r) = True"
| "rollback_events (EvCommitDDL sql r) = True"
| "rollback_events (EvCommitDMLs sqls) = True"
| "rollback_events (EvSave x r) = True"
| "rollback_events e = False"

text \<open>\<open>sql'\<close> is \<open>sql\<close> but for its execution status and execution result.\<close>

definition only_exec_fields :: "'a BaseSQL_scheme \<Rightarrow> 'a BaseSQL_scheme \<Rightarrow> bool" where
  "only_exec_fields sql sql' =
     (sql' = sql\<lparr>ExecStatus := ExecStatus sql', ExecResult := ExecResult sql'\<rparr>)"

section \<open>The properties in the words of the spec\<close>

text \<open>
  Rounding half up to \<open>n\<close> decimal places, and the pass rate: the share of statements
  whose audit level is normal, rounded half up to 4 places.
\<close>

definition spec_round_half_up :: "rat \<Rightarrow> nat \<Rightarrow> rat" where
  "spec_round_half_up x n = of_int \<lfloor>x * 10 ^ n + 1 / 2\<rfloor> / 10 ^ n"

definition is_normal :: "ExecuteSQL \<Rightarrow> bool" where
  "is_normal sql = (AuditLevel sql = RULE_LEVEL_NORMAL)"

definition spec_pass_rate :: "ExecuteSQL list \<Rightarrow> rat" where
  "spec_pass_rate sqls =
     spec_round_half_up (of_nat (length (filter is_normal sqls)) / of_nat (length sqls)) 4"

text \<open>
  The verdict of the first audit pass, when there is one (the rules were loaded and the
  first \<open>Advise\<close> succeeded): whether the batch is invalid, and its SQL type.
\<close>

definition first_pass :: "env \<Rightarrow> event list \<Rightarrow> Task \<Rightarrow> (bool \<times> sql_type) option" where
  "first_pass env h task =
     (let h1 = h @ [EvGetRulesByInstanceId (InstanceId task)] in
      case st_GetRulesByInstanceId env h (InstanceId task) of
        Inl err \<Rightarrow> None
      | Inr rules \<Rightarrow>
          (case i_Advise env h1 task [] rules of
             Inl err \<Rightarrow> None
           | Inr sqls \<Rightarrow>
               Some (i_SqlInvalid env (h1 @ [EvAdvise []]), i_SqlType env (h1 @ [EvAdvise []]))))"

text \<open>
  The final status of a commit: failed if the execution status of at least one statement
  is failed, succeeded otherwise.
\<close>

definition any_failed :: "'a BaseSQL_scheme list \<Rightarrow> bool" where
  "any_failed sqls = list_ex (\<lambda>sql. ExecStatus sql = SQLExecuteStatusFailed) sqls"

definition spec_final_status :: "'a BaseSQL_scheme list \<Rightarrow> task_status" where
  "spec_final_status sqls =
     (if any_failed sqls then TaskStatusExecuteFailed else TaskStatusExecuteSucceeded)"

section \<open>Sample environments and tasks\<close>

text \<open>A store that knows no task and never fails, and a backend that accepts and
  runs everything; the examples below change it field by field.\<close>

definition env0 :: env where
  "env0 = \<lparr>
     st_GetTaskDetailById = (\<lambda>h taskId. Inr None),
     ValidAction = (\<lambda>task typ. None),
     st_GetRulesByInstanceId = (\<lambda>h i. Inr []),
     st_GetRelatedDDLTask = (\<lambda>h task. Inr []),
     st_UpdateExecuteSQLs = (\<lambda>h task sqls. None),
     st_UpdateTask = (\<lambda>h task t p st. None),
     st_UpdateRollbackSQLs = (\<lambda>h task sqls. None),
     st_UpdateExecuteSqlStatus = (\<lambda>h sql st r. None),
     st_UpdateRollbackSqlStatus = (\<lambda>h sql st r. None),
     st_Save = (\<lambda>h x. None),
     st_UpdateTaskStatusById = (\<lambda>h i st. None),
     st_UpdateExecuteSQLStatusByTaskId = (\<lambda>h task st. None),
     i_Advise = (\<lambda>h task relateTasks rules. Inr (ExecuteSQLs task)),
     i_SqlInvalid = (\<lambda>h. False),
     i_SqlType = (\<lambda>h. SQL_TYPE_DML),
     i_GenerateAllRollbackSql = (\<lambda>h task. Inr []),
     i_ParseSqlType = (\<lambda>h task. None),
     i_ParseSql = (\<lambda>h content. Inr [content]),
     i_Add = (\<lambda>h sql. None),
     i_GetProcedureFunctionBackupSql = (\<lambda>h content. Inr []),
     i_CommitDDL = (\<lambda>h sql. ((SQLExecuteStatus_Other ''succeeded'', ''ok''), None)),
     i_CommitDMLs = (\<lambda>h sqls. map (\<lambda>sql. (SQLExecuteStatus_Other ''succeeded'', ''ok'')) sqls)
   \<rparr>"

definition sql0 :: "nat \<Rightarrow> string \<Rightarrow> audit_level \<Rightarrow> ExecuteSQL" where
  "sql0 n content level = \<lparr>Number = n, Content = content, Stmts = [],
     ExecStatus = SQLExecuteStatus_Other ''initialized'', ExecResult = [],
     AuditStatus = ''finished'', AuditResult = [], AuditLevel = level\<rparr>"

definition rsql0 :: "nat \<Rightarrow> string \<Rightarrow> RollbackSQL" where
  "rsql0 n content = \<lparr>Number = n, Content = content, Stmts = [],
     ExecStatus = SQLExecuteStatus_Other ''initialized'', ExecResult = []\<rparr>"

definition task0 :: Task where
  "task0 = \<lparr>ID = 7, InstanceId = 1, SQLSource = TaskSQLSource_Other [],
     ExecuteSQLs = [], RollbackSQLs = [], SQLType = SQL_TYPE_Other [],
     PassRate = 0, Status = TaskStatus_Other ''initialized''\<rparr>"

definition sqled0 :: Sqled where
  "sqled0 = \<lparr>currentTask = {}, queue = []\<rparr>"

definition task_done :: Task where
  "task_done = task0\<lparr>SQLType := SQL_TYPE_DDL, Status := TaskStatusExecuteSucceeded,
     RollbackSQLs := [rsql0 1 ''DROP TABLE t'', rsql0 2 []]\<rparr>"

definition env_ddl :: env where
  "env_ddl = env0\<lparr>i_SqlType := (\<lambda>h. SQL_TYPE_DDL)\<rparr>"

definition env_multi :: env where
  "env_multi = env0\<lparr>i_SqlType := (\<lambda>h. SQL_TYPE_MULTI)\<rparr>"

definition env_pf_multi :: env where
  "env_pf_multi = env0\<lparr>i_SqlType := (\<lambda>h. SQL_TYPE_PROCEDURE_FUNCTION_MULTI)\<rparr>"

text \<open>A store that knows task 7 under the id \<open>7\<close>, and a \<open>ValidAction\<close> that forbids
  the rollback of a task that is not yet executed.\<close>

definition env_store :: env where
  "env_store = env0\<lparr>
     st_GetTaskDetailById := (\<lambda>h taskId. if taskId = ''7'' then Inr (Some task0) else Inr None),
     ValidAction := (\<lambda>task typ. if typ = TASK_ACTION_ROLLBACK
                                     \<and> Status task = TaskStatus_Other ''initialized''
                                  then Some (Errorf ''action not allowed'') else None)\<rparr>"

text \<open>The task of the spec's scenario: a DDL and a DML statement, type not yet set.\<close>

definition task_mixed :: Task where
  "task_mixed = task0\<lparr>ExecuteSQLs :=
     [sql0 1 ''CREATE TABLE t(id int)'' (RULE_LEVEL_Other []),
      sql0 2 ''INSERT INTO t VALUES(1)'' (RULE_LEVEL_Other [])]\<rparr>"

text \<open>Three statements, two of them of level normal.\<close>

definition task_three :: Task where
  "task_three = task0\<lparr>ExecuteSQLs :=
     [sql0 1 ''DELETE FROM t WHERE id=1'' RULE_LEVEL_NORMAL,
      sql0 2 ''DELETE FROM t WHERE id=2'' RULE_LEVEL_NORMAL,
      sql0 3 ''DELETE FROM t'' (RULE_LEVEL_Other ''error'')]\<rparr>"

text \<open>An audited task of one DML statement, and one of one procedure definition.\<close>

definition task_dml :: Task where
  "task_dml = task0\<lparr>SQLType := SQL_TYPE_DML, Status := TaskStatusAudited,
     ExecuteSQLs := [sql0 1 ''DELETE FROM t WHERE id=1'' RULE_LEVEL_NORMAL]\<rparr>"

definition sql_pf :: ExecuteSQL where
  "sql_pf = sql0 1 ''CREATE PROCEDURE p() BEGIN END'' RULE_LEVEL_NORMAL"

definition task_pf :: Task where
  "task_pf = task0\<lparr>SQLType := SQL_TYPE_PROCEDURE_FUNCTION, Status := TaskStatusAudited,
     ExecuteSQLs := [sql_pf]\<rparr>"

text \<open>A store that cannot persist statements; a backend on which every DML statement
  fails; a backend that cannot produce backup statements; one whose backup statement
  fails to execute.\<close>

definition env_nopersist :: env where
  "env_nopersist = env0\<lparr>st_UpdateExecuteSQLs :=
     (\<lambda>h task sqls. Some (Errorf ''storage unavailable''))\<rparr>"

definition env_exec_fails :: env where
  "env_exec_fails = env0\<lparr>i_CommitDMLs :=
     (\<lambda>h sqls. map (\<lambda>sql. (SQLExecuteStatusFailed, ''duplicate key'')) sqls)\<rparr>"

definition env_nobackup :: env where
  "env_nobackup = env0\<lparr>i_GetProcedureFunctionBackupSql :=
     (\<lambda>h content. Inl (Errorf ''backup unavailable''))\<rparr>"

definition env_backup_fails :: env where
  "env_backup_fails = env0\<lparr>
     i_GetProcedureFunctionBackupSql := (\<lambda>h content. Inr [''CREATE PROCEDURE p_old() BEGIN END'']),
     i_CommitDDL := (\<lambda>h sql.
        if Content sql = ''CREATE PROCEDURE p_old() BEGIN END''
        then ((SQLExecuteStatusFailed, ''denied''), Some (Errorf ''denied''))
        else ((SQLExecuteStatus_Other ''succeeded'', ''ok''), None))\<rparr>"

text \<open>An inspector that finds every batch invalid, with a store that knows a related
  DDL task; a backend that generates a rollback statement; the same with an inspector
  that finds the batch invalid.\<close>

definition env_retry :: env where
  "env_retry = env0\<lparr>i_SqlInvalid := (\<lambda>h. True),
     st_GetRelatedDDLTask := (\<lambda>h task. Inr [task_done])\<rparr>"

definition env_gen :: env where
  "env_gen = env0\<lparr>i_GenerateAllRollbackSql :=
     (\<lambda>h task. Inr [rsql0 1 ''INSERT INTO t VALUES(1)''])\<rparr>"

definition env_invalid :: env where
  "env_invalid = env_gen\<lparr>i_SqlInvalid := (\<lambda>h. True), i_SqlType := (\<lambda>h. SQL_TYPE_DDL)\<rparr>"

text \<open>A store that compares ids as numbers: it finds task 7 under the id strings
  \<open>7\<close> and \<open>07\<close>.\<close>

definition env_coerce :: env where
  "env_coerce = env0\<lparr>st_GetTaskDetailById :=
     (\<lambda>h taskId. if taskId = ''7'' \<or> taskId = ''07'' then Inr (Some task0) else Inr None)\<rparr>"

section \<open>Object-name keyword rule\<close>









section \<open>Histories\<close>

lemma extends_by_refl [simp]: "extends_by P h h"
  by (simp add: extends_by_def)

lemma extends_by_trans: "extends_by P h h1 \<Longrightarrow> extends_by P h1 h2 \<Longrightarrow> extends_by P h h2"
  by (auto simp: extends_by_def)

lemma extends_by_app [simp]: "extends_by P h (h @ evs) = list_all P evs"
  by (simp add: extends_by_def)

lemma extends_by_app_left: "extends_by P (h @ evs) h' \<Longrightarrow> list_all P evs \<Longrightarrow> extends_by P h h'"
  by (auto simp: extends_by_def)

lemma extends_by_app_right: "extends_by P h h' \<Longrightarrow> list_all P evs \<Longrightarrow> extends_by P h (h' @ evs)"
  by (auto simp: extends_by_def)

lemma extends_by_new_events: "extends_by P h h' \<Longrightarrow> list_all P (new_events h h')"
  by (auto simp: extends_by_def new_events_def)

lemma extends_by_mono: "extends_by P h h' \<Longrightarrow> (\<And>e. P e \<Longrightarrow> Q e) \<Longrightarrow> extends_by Q h h'"
  by (auto simp: extends_by_def list_all_iff)

lemma Do_extends:
  assumes "\<And>h s h1 s1 e. action h s = (h1, s1, e) \<Longrightarrow> extends_by P h h1"
  shows "Do added action h ss = (h', ss', e) \<Longrightarrow> extends_by P h h'"
proof (induction ss arbitrary: h h' ss' e)
  case Nil
  then show ?case by simp
next
  case (Cons s ss)
  show ?case
  proof (cases "added s")
    case False
    with Cons show ?thesis by (auto split: prod.splits)
  next
    case True
    obtain h1 s1 e1 where a: "action h s = (h1, s1, e1)" by (cases "action h s")
    have x: "extends_by P h h1" using assms a by blast
    show ?thesis
    proof (cases e1)
      case None
      obtain h2 ss2 e2 where d: "Do added action h1 ss = (h2, ss2, e2)"
        by (cases "Do added action h1 ss")
      from Cons.prems True a None d have "h' = h2" by simp
      with Cons.IH[OF d] x show ?thesis by (blast intro: extends_by_trans)
    next
      case (Some err)
      with Cons.prems True a have "h' = h1" by simp
      with x show ?thesis by simp
    qed
  qed
qed

lemma Do_list_all2:
  assumes "\<And>h s h1 s1 e. action h s = (h1, s1, e) \<Longrightarrow> R s s1"
      and "\<And>s. R s s"
  shows "Do added action h ss = (h', ss', e) \<Longrightarrow> list_all2 R ss ss'"
proof (induction ss arbitrary: h h' ss' e)
  case Nil
  then show ?case by simp
next
  case (Cons s ss)
  have refl: "list_all2 R ss ss" using assms(2) by (simp add: list_all2_refl)
  show ?case
  proof (cases "added s")
    case False
    with Cons assms(2) show ?thesis by (auto split: prod.splits)
  next
    case True
    obtain h1 s1 e1 where a: "action h s = (h1, s1, e1)" by (cases "action h s")
    have x: "R s s1" using assms(1) a by blast
    show ?thesis
    proof (cases e1)
      case None
      obtain h2 ss2 e2 where d: "Do added action h1 ss = (h2, ss2, e2)"
        by (cases "Do added action h1 ss")
      from Cons.prems True a None d have "ss' = s1 # ss2" by simp
      with Cons.IH[OF d] x show ?thesis by simp
    next
      case (Some err)
      with Cons.prems True a have "ss' = s1 # ss" by simp
      with x refl show ?thesis by simp
    qed
  qed
qed

lemma rollback_Add_extends: "rollback_Add env h sqls = (h', e) \<Longrightarrow> extends_by rollback_events h h'"
proof (induction sqls arbitrary: h)
  case Nil
  then show ?case by simp
next
  case (Cons s sqls)
  show ?case
  proof (cases "Content s = []")
    case True
    with Cons show ?thesis by simp
  next
    case False
    show ?thesis
    proof (cases "i_Add env h s")
      case None
      with Cons.prems False have "rollback_Add env (h @ [EvAdd s]) sqls = (h', e)"
        by (simp add: Add_def)
      from Cons.IH[OF this] show ?thesis by (rule extends_by_app_left) simp
    next
      case (Some err)
      with Cons.prems False show ?thesis by (auto simp: Add_def)
    qed
  qed
qed

lemma only_exec_fields_refl [simp]: "only_exec_fields sql sql"
  by (simp add: only_exec_fields_def)

lemma only_exec_fields_upd [simp]:
  "only_exec_fields sql (sql\<lparr>ExecStatus := st, ExecResult := r\<rparr>)"
  "only_exec_fields sql (sql\<lparr>ExecStatus := st\<rparr>)"
  by (simp_all add: only_exec_fields_def)

lemma only_exec_fields_trans:
  "only_exec_fields a b \<Longrightarrow> only_exec_fields b c \<Longrightarrow> only_exec_fields a c"
  unfolding only_exec_fields_def
  by (metis (no_types, lifting) BaseSQL.update_convs(4,5) BaseSQL.surjective)

lemma set_exec_single:
  "only_exec_fields sql (case set_exec [sql] rs of [sql1] \<Rightarrow> sql1 | _ \<Rightarrow> sql)"
  by (cases rs) simp_all

lemma rollback_switch_props:
  assumes "rollback_switch env h sql = (h', sql', e)"
  shows "extends_by rollback_events h h'" and "only_exec_fields sql sql'"
proof -
  from assms show "extends_by rollback_events h h'"
    by (auto simp: rollback_switch_def Let_def split: sql_type.splits)
  from assms show "only_exec_fields sql sql'"
    by (cases "i_SqlType env h") (auto simp: rollback_switch_def Let_def set_exec_single)
qed

lemma rollback_action_props:
  assumes "rollback_action env h sql = (h', sql', e)"
  shows "extends_by rollback_events h h'" and "only_exec_fields sql sql'"
proof -
  let ?h1 = "h @ [EvUpdateRollbackSqlStatus sql SQLExecuteStatusDoing []]"
  let ?s1 = "sql\<lparr>ExecStatus := SQLExecuteStatusDoing\<rparr>"
  obtain h2 sql2 e2 where sw: "rollback_switch env ?h1 ?s1 = (h2, sql2, e2)"
    by (cases "rollback_switch env ?h1 ?s1")
  note p = rollback_switch_props[OF sw]
  have a: "extends_by rollback_events h h2"
    by (rule extends_by_app_left[OF p(1)]) simp
  have b: "only_exec_fields sql sql2"
    by (rule only_exec_fields_trans[OF _ p(2)]) simp
  show "extends_by rollback_events h h'"
    using assms sw a
    by (auto simp: rollback_action_def Let_def split: option.splits intro!: extends_by_app_right)
  show "only_exec_fields sql sql'"
    using assms sw b
    by (auto simp: rollback_action_def Let_def split: option.splits)
qed

lemma only_exec_fields_list_refl: "list_all2 only_exec_fields xs xs"
  by (simp add: list_all2_refl)

lemma rollback_events_no_task_fields: "rollback_events e \<Longrightarrow> writes_task_fields e \<Longrightarrow> False"
  by (cases e) simp_all

section \<open>Reading histories\<close>

lemmas readers = pass_rate_writes_def advise_contexts_def related_lookups_def generations_def
  persisted_rollbacks_def

lemma new_events_app [simp]: "new_events h (h @ evs) = evs"
  by (simp add: new_events_def)

lemma new_events_app2 [simp]: "new_events h ((h @ evs) @ evs') = evs @ evs'"
  by (simp add: new_events_def)

lemma map_filter_none:
  "list_all P evs \<Longrightarrow> (\<And>e. P e \<Longrightarrow> f e = []) \<Longrightarrow> concat (map f evs) = []"
  by (induction evs) simp_all

lemma advise_events_readers:
  assumes "list_all advise_events evs"
  shows "generations evs = []" "persisted_rollbacks evs = []" "pass_rate_writes evs = []"
proof -
  have a: "\<And>e. advise_events e \<Longrightarrow> generation e = []" by (case_tac e) simp_all
  have b: "\<And>e. advise_events e \<Longrightarrow> persisted_rollback e = []" by (case_tac e) simp_all
  have c: "\<And>e. advise_events e \<Longrightarrow> pass_rate_write e = []" by (case_tac e) simp_all
  show "generations evs = []" "persisted_rollbacks evs = []" "pass_rate_writes evs = []"
    unfolding generations_def persisted_rollbacks_def pass_rate_writes_def
    using assms a b c by (simp_all add: map_filter_none)
qed

lemma generate_events_readers:
  assumes "list_all generate_events evs"
  shows "advise_contexts evs = []" "related_lookups evs = []" "persisted_rollbacks evs = []"
    "pass_rate_writes evs = []"
proof -
  have a: "\<And>e. generate_events e \<Longrightarrow> advise_context e = []" by (case_tac e) simp_all
  have b: "\<And>e. generate_events e \<Longrightarrow> persisted_rollback e = []" by (case_tac e) simp_all
  have c: "\<And>e. generate_events e \<Longrightarrow> pass_rate_write e = []" by (case_tac e) simp_all
  have d: "\<And>e. generate_events e \<Longrightarrow> related_lookup e = []" by (case_tac e) simp_all
  show "advise_contexts evs = []" "related_lookups evs = []" "persisted_rollbacks evs = []"
    "pass_rate_writes evs = []"
    unfolding advise_contexts_def related_lookups_def persisted_rollbacks_def pass_rate_writes_def
    using assms a b c d by (simp_all add: map_filter_none)
qed

lemma save_events_readers:
  assumes "list_all save_events evs"
  shows "advise_contexts evs = []" "related_lookups evs = []" "generations evs = []"
proof -
  have a: "\<And>e. save_events e \<Longrightarrow> advise_context e = []" by (case_tac e) simp_all
  have b: "\<And>e. save_events e \<Longrightarrow> generation e = []" by (case_tac e) simp_all
  have d: "\<And>e. save_events e \<Longrightarrow> related_lookup e = []" by (case_tac e) simp_all
  show "advise_contexts evs = []" "related_lookups evs = []" "generations evs = []"
    unfolding advise_contexts_def related_lookups_def generations_def
    using assms a b d by (simp_all add: map_filter_none)
qed

lemma commit_reader_simps:
  "status_writes [] = []"
  "status_writes (e # es) = status_write e @ status_writes es"
  "status_writes (xs @ ys) = status_writes xs @ status_writes ys"
  "executed [] = []"
  "executed (e # es) = executed_by e @ executed es"
  "executed (xs @ ys) = executed xs @ executed ys"
  "save_results [] = []"
  "save_results (e # es) = save_result e @ save_results es"
  "save_results (xs @ ys) = save_results xs @ save_results ys"
  by (simp_all add: status_writes_def executed_def save_results_def)

lemma prepare_events_readers:
  assumes "list_all prepare_events evs"
  shows "status_writes evs = []" "executed evs = []" "list_all (\<lambda>e. \<not> executes e) evs"
proof -
  have a: "\<And>e. prepare_events e \<Longrightarrow> status_write e = []" by (case_tac e) simp_all
  have b: "\<And>e. prepare_events e \<Longrightarrow> executed_by e = []" by (case_tac e) simp_all
  have c: "\<And>e. prepare_events e \<Longrightarrow> \<not> executes e" by (case_tac e) simp_all
  show "status_writes evs = []" "executed evs = []"
    unfolding status_writes_def executed_def using assms a b by (simp_all add: map_filter_none)
  show "list_all (\<lambda>e. \<not> executes e) evs"
    using assms c by (auto simp: list_all_iff)
qed

lemma action_events_readers:
  assumes "list_all action_events evs"
  shows "status_writes evs = []"
proof -
  have a: "\<And>e. action_events e \<Longrightarrow> status_write e = []" by (case_tac e) simp_all
  show ?thesis unfolding status_writes_def using assms a by (simp add: map_filter_none)
qed

lemma ebe_True: "executing_before_exec i True evs"
  by (induction evs) simp_all

lemma ebe_no_exec: "list_all (\<lambda>e. \<not> executes e) evs \<Longrightarrow> executing_before_exec i b evs"
  by (induction evs arbitrary: b) simp_all

lemma ebe_prefix:
  "list_all (\<lambda>e. \<not> executes e) xs \<Longrightarrow>
   executing_before_exec i b (xs @ EvUpdateTaskStatusById i TaskStatusExecuting None # ys)"
  by (induction xs arbitrary: b) (simp_all add: ebe_True)

lemma prepare_events_readers2:
  assumes "list_all prepare_events evs"
  shows "status_attempts evs = []" "persist_failures evs = []"
proof -
  have a: "\<And>e. prepare_events e \<Longrightarrow> status_attempt e = []" by (case_tac e) simp_all
  have b: "\<And>e. prepare_events e \<Longrightarrow> persist_failure e = []" by (case_tac e) simp_all
  show "status_attempts evs = []" "persist_failures evs = []"
    unfolding status_attempts_def persist_failures_def
    using assms a b by (simp_all add: map_filter_none)
qed

lemma commit_reader_simps2:
  "status_attempts [] = []"
  "status_attempts (e # es) = status_attempt e @ status_attempts es"
  "status_attempts (xs @ ys) = status_attempts xs @ status_attempts ys"
  "persist_failures [] = []"
  "persist_failures (e # es) = persist_failure e @ persist_failures es"
  "persist_failures (xs @ ys) = persist_failures xs @ persist_failures ys"
  by (simp_all add: status_attempts_def persist_failures_def)

section \<open>The phases of the audit workflow\<close>

lemma normalCount_loop_count:
  "normalCount_loop c sqls = c + of_nat (length (filter is_normal sqls))"
  by (induction sqls arbitrary: c) (simp_all add: is_normal_def)

lemma Trunc_nonneg: "0 \<le> x \<Longrightarrow> Trunc x = of_int \<lfloor>x\<rfloor>"
  by (simp add: Trunc_def)

lemma round_f_spec: "0 \<le> f \<Longrightarrow> round_f f (int n) = spec_round_half_up f n"
  by (simp add: round_f_def Pow10_def spec_round_half_up_def Trunc_nonneg Let_def)

lemma round_f_4: "0 \<le> f \<Longrightarrow> round_f f 4 = spec_round_half_up f 4"
  using round_f_spec[of f 4] by simp

lemma audit_advise_phase:
  assumes "audit_advise env h task rules = (h1, task1, r)"
  shows "\<exists>evs. h1 = h @ evs \<and> list_all advise_events evs
      \<and> task1 = task\<lparr>ExecuteSQLs := ExecuteSQLs task1\<rparr>
      \<and> (\<forall>invalid ty. r = Inr (invalid, ty) \<longrightarrow>
            (\<exists>sqls. i_Advise env h task [] rules = Inr sqls)
            \<and> invalid = i_SqlInvalid env (h @ [EvAdvise []]) \<and> ty = i_SqlType env (h @ [EvAdvise []]))
      \<and> (\<forall>err. r = Inl err \<longrightarrow>
            (\<exists>err0. i_Advise env h task [] rules = Inl err0)
            \<or> (i_SqlInvalid env (h @ [EvAdvise []]) \<and> i_SqlType env (h @ [EvAdvise []]) = SQL_TYPE_DML))
      \<and> (related_lookups evs \<noteq> [] \<longleftrightarrow>
            (\<exists>sqls. i_Advise env h task [] rules = Inr sqls)
            \<and> i_SqlInvalid env (h @ [EvAdvise []]) \<and> i_SqlType env (h @ [EvAdvise []]) = SQL_TYPE_DML)
      \<and> length (related_lookups evs) \<le> 1
      \<and> advise_contexts evs \<noteq> [] \<and> hd (advise_contexts evs) = []
      \<and> tl (advise_contexts evs) =
           (case related_lookups evs of
              [Inr relateTasks] \<Rightarrow> (if relateTasks \<noteq> [] then [relateTasks] else [])
            | _ \<Rightarrow> [])"
  using assms
  by (auto simp: audit_advise_def Let_def readers split: sum.splits if_splits)

lemma audit_generate_phase:
  assumes "audit_generate env h task invalid = (h1, r)"
  shows "\<exists>evs. h1 = h @ evs \<and> list_all generate_events evs
      \<and> (generations evs \<noteq> [] \<longleftrightarrow> \<not> invalid \<and> SQLSource task \<noteq> TaskSQLSourceFromMyBatisXMLFile)
      \<and> (generations evs = [] \<or> generations evs = [r])
      \<and> (generations evs = [] \<longrightarrow> r = Inr [])"
  using assms
  by (auto simp: audit_generate_def readers split: if_splits)

lemma audit_save_phase:
  assumes "audit_save env h task sqlType rollbackSqls = (h1, task1, err)"
  shows "\<exists>evs. h1 = h @ evs \<and> list_all save_events evs
      \<and> ExecuteSQLs task1 = ExecuteSQLs task
      \<and> (persisted_rollbacks evs = [] \<or> (rollbackSqls \<noteq> [] \<and> persisted_rollbacks evs = [rollbackSqls]))
      \<and> (err = None \<and> rollbackSqls \<noteq> [] \<longrightarrow> persisted_rollbacks evs = [rollbackSqls])
      \<and> (err = None \<longrightarrow> pass_rate_writes evs = [PassRate task1]
            \<and> (ExecuteSQLs task \<noteq> [] \<longrightarrow> PassRate task1 = spec_pass_rate (ExecuteSQLs task))
            \<and> (ExecuteSQLs task = [] \<longrightarrow> PassRate task1 = PassRate task))"
proof (cases "st_UpdateExecuteSQLs env h task (ExecuteSQLs task)")
  case (Some e)
  with assms have "h1 = h @ [EvUpdateExecuteSQLs (ExecuteSQLs task) (Some e),
      EvLog ''save commit sql to storage failed'']" and "task1 = task" and "err = Some e"
    by (auto simp: audit_save_def)
  then show ?thesis by (simp add: readers)
next
  case None
  let ?h1 = "h @ [EvUpdateExecuteSQLs (ExecuteSQLs task) None]"
  let ?t1 = "if length (ExecuteSQLs task) \<noteq> 0
             then task\<lparr>PassRate := round_f (normalCount_loop 0 (ExecuteSQLs task)
                    / of_nat (length (ExecuteSQLs task))) 4\<rparr> else task"
  let ?t2 = "?t1\<lparr>Status := TaskStatusAudited\<rparr>"
  have pr: "ExecuteSQLs task \<noteq> [] \<Longrightarrow> PassRate ?t2 = spec_pass_rate (ExecuteSQLs task)"
    by (simp add: normalCount_loop_count round_f_4 spec_pass_rate_def)
  have pr0: "ExecuteSQLs task = [] \<Longrightarrow> PassRate ?t2 = PassRate task"
    by simp
  have ex: "ExecuteSQLs ?t2 = ExecuteSQLs task" by simp
  show ?thesis
  proof (cases "st_UpdateTask env ?h1 ?t2 sqlType (PassRate ?t2) (Status ?t2)")
    case (Some e)
    with assms None have "h1 = h @ [EvUpdateExecuteSQLs (ExecuteSQLs task) None,
        EvUpdateTask sqlType (PassRate ?t2) (Status ?t2), EvLog ''update task to storage failed'']"
      and "task1 = ?t2" and "err = Some e"
      by (auto simp: audit_save_def Let_def)
    with ex show ?thesis by (simp add: readers)
  next
    case ut: None
    let ?h2 = "?h1 @ [EvUpdateTask sqlType (PassRate ?t2) (Status ?t2)]"
    show ?thesis
    proof (cases "rollbackSqls = []")
      case True
      with assms None ut have "h1 = ?h2" and "task1 = ?t2" and "err = None"
        by (auto simp: audit_save_def Let_def)
      with ex pr pr0 True show ?thesis by (simp add: readers)
    next
      case False
      show ?thesis
      proof (cases "st_UpdateRollbackSQLs env ?h2 ?t2 rollbackSqls")
        case (Some e)
        with assms None ut False have "h1 = ?h2 @ [EvUpdateRollbackSQLs rollbackSqls,
            EvLog ''save rollback sql to storage failed'']" and "task1 = ?t2" and "err = Some e"
          by (auto simp: audit_save_def Let_def)
        with ex False show ?thesis by (simp add: readers)
      next
        case ur: None
        with assms None ut False have "h1 = ?h2 @ [EvUpdateRollbackSQLs rollbackSqls]"
          and "task1 = ?t2" and "err = None"
          by (auto simp: audit_save_def Let_def)
        with ex pr pr0 False show ?thesis by (simp add: readers)
      qed
    qed
  qed
qed


lemma reader_simps:
  "pass_rate_writes [] = []"
  "pass_rate_writes (e # es) = pass_rate_write e @ pass_rate_writes es"
  "pass_rate_writes (xs @ ys) = pass_rate_writes xs @ pass_rate_writes ys"
  "advise_contexts [] = []"
  "advise_contexts (e # es) = advise_context e @ advise_contexts es"
  "advise_contexts (xs @ ys) = advise_contexts xs @ advise_contexts ys"
  "related_lookups [] = []"
  "related_lookups (e # es) = related_lookup e @ related_lookups es"
  "related_lookups (xs @ ys) = related_lookups xs @ related_lookups ys"
  "generations [] = []"
  "generations (e # es) = generation e @ generations es"
  "generations (xs @ ys) = generations xs @ generations ys"
  "persisted_rollbacks [] = []"
  "persisted_rollbacks (e # es) = persisted_rollback e @ persisted_rollbacks es"
  "persisted_rollbacks (xs @ ys) = persisted_rollbacks xs @ persisted_rollbacks ys"
  by (simp_all add: readers)

lemma audit_decompose:
  assumes "audit env h task = (h', task', err)"
  shows "(\<exists>err0. st_GetRulesByInstanceId env h (InstanceId task) = Inl err0
            \<and> h' = h @ [EvGetRulesByInstanceId (InstanceId task),
                         EvLog ''get instance rule from storage failed'']
            \<and> task' = task \<and> err = Some err0)
       \<or> (\<exists>rules h1 task1 r.
             st_GetRulesByInstanceId env h (InstanceId task) = Inr rules
           \<and> audit_advise env (h @ [EvGetRulesByInstanceId (InstanceId task)]) task rules
               = (h1, task1, r)
           \<and> ((\<exists>e. r = Inl e \<and> h' = h1 \<and> task' = task1 \<and> err = Some e)
              \<or> (\<exists>invalid ty h2 g. r = Inr (invalid, ty)
                    \<and> audit_generate env h1 task1 invalid = (h2, g)
                    \<and> ((\<exists>e. g = Inl e \<and> h' = h2 \<and> task' = task1 \<and> err = Some e)
                       \<or> (\<exists>rollbackSqls. g = Inr rollbackSqls
                             \<and> audit_save env h2 task1 ty rollbackSqls = (h', task', err))))))"
  using assms by (auto simp: audit_def split: sum.splits prod.splits)

lemma first_pass_rules_fail:
  "st_GetRulesByInstanceId env h (InstanceId task) = Inl err0 \<Longrightarrow> first_pass env h task = None"
  by (simp add: first_pass_def)

lemma first_pass_rules_ok:
  "st_GetRulesByInstanceId env h (InstanceId task) = Inr rules \<Longrightarrow>
   first_pass env h task =
     (case i_Advise env (h @ [EvGetRulesByInstanceId (InstanceId task)]) task [] rules of
        Inl err \<Rightarrow> None
      | Inr sqls \<Rightarrow>
          Some (i_SqlInvalid env (h @ [EvGetRulesByInstanceId (InstanceId task), EvAdvise []]),
                i_SqlType env (h @ [EvGetRulesByInstanceId (InstanceId task), EvAdvise []])))"
  by (simp add: first_pass_def Let_def split: sum.splits)




section \<open>The phases of the commit workflow\<close>

lemma taskStatus_loop_spec:
  "taskStatus_loop TaskStatusExecuteSucceeded sqls = spec_final_status sqls"
  by (induction sqls) (simp_all add: spec_final_status_def any_failed_def)

lemma commitDDL_Add_extends:
  "commitDDL_Add env h sqls = (h', e) \<Longrightarrow> extends_by prepare_events h h'"
proof (induction sqls arbitrary: h)
  case Nil
  then show ?case by simp
next
  case (Cons s sqls)
  show ?case
  proof (cases "i_Add env h (BaseSQL.truncate s)")
    case None
    with Cons.prems have "commitDDL_Add env (h @ [EvAdd (BaseSQL.truncate s)]) sqls = (h', e)"
      by (simp add: Add_def)
    from Cons.IH[OF this] show ?thesis by (rule extends_by_app_left) simp
  next
    case (Some err)
    with Cons.prems show ?thesis by (auto simp: Add_def)
  qed
qed

lemma commitDML_parse_extends:
  "commitDML_parse env h sqls = (h', sqls', e) \<Longrightarrow> extends_by prepare_events h h'"
proof (induction sqls arbitrary: h h' sqls' e)
  case Nil
  then show ?case by simp
next
  case (Cons s sqls)
  show ?case
  proof (cases "i_ParseSql env h (Content s)")
    case (Inl err)
    with Cons.prems show ?thesis by auto
  next
    case (Inr nodes)
    obtain h1 sqls1 e1 where p: "commitDML_parse env (h @ [EvParseSql (Content s)]) sqls = (h1, sqls1, e1)"
      by (cases "commitDML_parse env (h @ [EvParseSql (Content s)]) sqls")
    with Cons.prems Inr have "h' = h1" by simp
    with Cons.IH[OF p] show ?thesis by (auto intro: extends_by_app_left)
  qed
qed

lemma commitDDL_backup_props:
  "extends_by backup_events h (commitDDL_backup env h backupSqls)
   \<and> map Content (executed (new_events h (commitDDL_backup env h backupSqls))) = backupSqls
   \<and> failures_logged (new_events h (commitDDL_backup env h backupSqls))"
proof (induction backupSqls arbitrary: h)
  case Nil
  then show ?case by (simp add: new_events_def commit_reader_simps)
next
  case (Cons b bs)
  let ?m = "\<lparr>Number = 0, Content = b, Stmts = [], ExecStatus = SQLExecuteStatus_Other [],
            ExecResult = []\<rparr>"
  show ?case
  proof (cases "snd (i_CommitDDL env h ?m)")
    case None
    let ?h1 = "h @ [EvCommitDDL ?m None]"
    have eq: "commitDDL_backup env h (b # bs) = commitDDL_backup env ?h1 bs"
      using None by simp
    from Cons[of ?h1] obtain evs where
      evs: "commitDDL_backup env ?h1 bs = ?h1 @ evs" "list_all backup_events evs"
      by (auto simp: extends_by_def)
    have ne: "new_events ?h1 (commitDDL_backup env ?h1 bs) = evs"
      using evs(1) by (simp add: new_events_def)
    have ne2: "new_events h (commitDDL_backup env h (b # bs)) = EvCommitDDL ?m None # evs"
      using evs(1) eq by (simp add: new_events_def)
    from Cons[of ?h1] show ?thesis
      unfolding ne ne2 unfolding eq evs(1)
      by (simp add: commit_reader_simps evs(2))
  next
    case (Some err)
    let ?h1 = "h @ [EvCommitDDL ?m (Some err), EvLog ''create procedure function backup failed'']"
    have eq: "commitDDL_backup env h (b # bs) = commitDDL_backup env ?h1 bs"
      using Some by simp
    from Cons[of ?h1] obtain evs where
      evs: "commitDDL_backup env ?h1 bs = ?h1 @ evs" "list_all backup_events evs"
      by (auto simp: extends_by_def)
    have ne: "new_events ?h1 (commitDDL_backup env ?h1 bs) = evs"
      using evs(1) by (simp add: new_events_def)
    have ne2: "new_events h (commitDDL_backup env h (b # bs)) =
        EvCommitDDL ?m (Some err) # EvLog ''create procedure function backup failed'' # evs"
      using evs(1) eq by (simp add: new_events_def)
    from Cons[of ?h1] show ?thesis
      unfolding ne ne2 unfolding eq evs(1)
      by (simp add: commit_reader_simps evs(2))
  qed
qed


lemma backup_events_action: "backup_events e \<Longrightarrow> action_events e"
  by (cases e) simp_all

lemma commitDDL_action_noPF:
  "st_UpdateExecuteSqlStatus env h (BaseSQL.truncate sql) SQLExecuteStatusDoing [] = None \<Longrightarrow>
   commitDDL_action env False h sql =
     (let h1 = h @ [EvUpdateExecuteSqlStatus (BaseSQL.truncate sql) SQLExecuteStatusDoing []];
          sql1 = sql\<lparr>ExecStatus := SQLExecuteStatusDoing\<rparr>;
          r = i_CommitDDL env h1 (BaseSQL.truncate sql1);
          sql2 = sql1\<lparr>ExecStatus := fst (fst r), ExecResult := snd (fst r)\<rparr>;
          sr = st_Save env (h1 @ [EvCommitDDL (BaseSQL.truncate sql1) (snd r)]) (Save_ExecuteSQL sql2)
      in (h1 @ [EvCommitDDL (BaseSQL.truncate sql1) (snd r), EvSave (Save_ExecuteSQL sql2) sr]
             @ (if sr \<noteq> None then [EvLog ''save commit sql to storage failed''] else []),
          sql2,
          if ExecResult sql2 \<noteq> ''ok'' then Some (Errorf ''exec ddl commit sql failed'') else sr))"
  by (simp add: commitDDL_action_def Let_def)

lemma commitDDL_action_PF_ok:
  "st_UpdateExecuteSqlStatus env h (BaseSQL.truncate sql) SQLExecuteStatusDoing [] = None \<Longrightarrow>
   i_GetProcedureFunctionBackupSql env
       (h @ [EvUpdateExecuteSqlStatus (BaseSQL.truncate sql) SQLExecuteStatusDoing []])
       (Content sql) = Inr backupSqls \<Longrightarrow>
   commitDDL_action env True h sql =
     (let hg = h @ [EvUpdateExecuteSqlStatus (BaseSQL.truncate sql) SQLExecuteStatusDoing [],
                    EvGetProcedureFunctionBackupSql (Content sql)];
          hb = commitDDL_backup env hg backupSqls;
          sql1 = sql\<lparr>ExecStatus := SQLExecuteStatusDoing\<rparr>;
          r = i_CommitDDL env hb (BaseSQL.truncate sql1);
          sql2 = sql1\<lparr>ExecStatus := fst (fst r), ExecResult := snd (fst r)\<rparr>;
          sr = st_Save env (hb @ [EvCommitDDL (BaseSQL.truncate sql1) (snd r)]) (Save_ExecuteSQL sql2)
      in (hb @ [EvCommitDDL (BaseSQL.truncate sql1) (snd r), EvSave (Save_ExecuteSQL sql2) sr]
             @ (if sr \<noteq> None then [EvLog ''save commit sql to storage failed''] else []),
          sql2,
          if ExecResult sql2 \<noteq> ''ok'' then Some (Errorf ''exec ddl commit sql failed'') else sr))"
  by (simp add: commitDDL_action_def Let_def)

lemma commitDDL_action_PF_unavailable:
  "st_UpdateExecuteSqlStatus env h (BaseSQL.truncate sql) SQLExecuteStatusDoing [] = None \<Longrightarrow>
   i_GetProcedureFunctionBackupSql env
       (h @ [EvUpdateExecuteSqlStatus (BaseSQL.truncate sql) SQLExecuteStatusDoing []])
       (Content sql) = Inl err \<Longrightarrow>
   commitDDL_action env True h sql =
     (h @ [EvUpdateExecuteSqlStatus (BaseSQL.truncate sql) SQLExecuteStatusDoing [],
           EvGetProcedureFunctionBackupSql (Content sql),
           EvLog ''get procedure function backup sql failed''],
      sql\<lparr>ExecStatus := SQLExecuteStatusDoing\<rparr>, Some err)"
  by (simp add: commitDDL_action_def Let_def)

lemma commitDDL_action_update_failed:
  "st_UpdateExecuteSqlStatus env h (BaseSQL.truncate sql) SQLExecuteStatusDoing [] = Some err \<Longrightarrow>
   commitDDL_action env isPF h sql =
     (h @ [EvUpdateExecuteSqlStatus (BaseSQL.truncate sql) SQLExecuteStatusDoing [],
           EvLog ''update commit sql status to storage failed''],
      sql\<lparr>ExecStatus := SQLExecuteStatusDoing\<rparr>, Some err)"
  by (simp add: commitDDL_action_def Let_def)

lemma commitDDL_action_basic:
  assumes "commitDDL_action env isPF h sql = (h', sql', e)"
  shows "extends_by action_events h h'" and "only_exec_fields sql sql'"
proof -
  have "extends_by action_events h h' \<and> only_exec_fields sql sql'"
  proof (cases "st_UpdateExecuteSqlStatus env h (BaseSQL.truncate sql) SQLExecuteStatusDoing []")
    case (Some err)
    from assms show ?thesis unfolding commitDDL_action_update_failed[OF Some] by auto
  next
    case None
    show ?thesis
    proof (cases isPF)
      case False
      with assms have "commitDDL_action env False h sql = (h', sql', e)" by simp
      then show ?thesis
        unfolding commitDDL_action_noPF[OF None]
        by (auto simp: Let_def only_exec_fields_def)
    next
      case True
      with assms have a: "commitDDL_action env True h sql = (h', sql', e)" by simp
      let ?h1 = "h @ [EvUpdateExecuteSqlStatus (BaseSQL.truncate sql) SQLExecuteStatusDoing []]"
      show ?thesis
      proof (cases "i_GetProcedureFunctionBackupSql env ?h1 (Content sql)")
        case (Inl err)
        from a show ?thesis
          unfolding commitDDL_action_PF_unavailable[OF None Inl] by auto
      next
        case (Inr bs)
        let ?hg = "h @ [EvUpdateExecuteSqlStatus (BaseSQL.truncate sql) SQLExecuteStatusDoing [],
                    EvGetProcedureFunctionBackupSql (Content sql)]"
        have "extends_by backup_events ?hg (commitDDL_backup env ?hg bs)"
          using commitDDL_backup_props by blast
        then have "extends_by action_events ?hg (commitDDL_backup env ?hg bs)"
          by (rule extends_by_mono) (rule backup_events_action)
        then obtain evs where evs: "commitDDL_backup env ?hg bs = ?hg @ evs" "list_all action_events evs"
          by (auto simp: extends_by_def)
        from a show ?thesis
          unfolding commitDDL_action_PF_ok[OF None Inr] Let_def evs(1)
          using evs(2) by (auto simp: only_exec_fields_def extends_by_def)
      qed
    qed
  qed
  then show "extends_by action_events h h'" and "only_exec_fields sql sql'" by simp_all
qed

lemma commitDDL_cases:
  assumes "commitDDL env h task isPF = (h', task', e)"
  shows "(\<exists>h1 err. commitDDL_Add env (h @ [EvLog ''start commit'']) (ExecuteSQLs task) = (h1, Some err)
            \<and> h' = h1 \<and> task' = task \<and> e = Some err)
       \<or> (\<exists>h1 err. commitDDL_Add env (h @ [EvLog ''start commit'']) (ExecuteSQLs task) = (h1, None)
            \<and> h' = h1 @ [EvUpdateTaskStatusById (ID task) TaskStatusExecuting (Some err)]
            \<and> task' = task \<and> e = Some err)
       \<or> (\<exists>h1 h2 sqls err2 m.
              commitDDL_Add env (h @ [EvLog ''start commit'']) (ExecuteSQLs task) = (h1, None)
            \<and> Do (\<lambda>sql. True) (commitDDL_action env isPF)
                 (h1 @ [EvUpdateTaskStatusById (ID task) TaskStatusExecuting None])
                 (ExecuteSQLs task) = (h2, sqls, err2)
            \<and> h' = h2 @ [EvLog m,
                 EvUpdateTaskStatusById (ID task) (taskStatus_loop TaskStatusExecuteSucceeded sqls) e]
            \<and> task' = task\<lparr>ExecuteSQLs := sqls\<rparr>)"
  using assms by (auto simp: commitDDL_def Let_def split: prod.splits option.splits)

lemma commitDML_cases:
  assumes "commitDML env h task = (h', task', e)"
  obtains (prepare) evs where "h' = h @ evs" "list_all prepare_events evs"
      "task' = task\<lparr>ExecuteSQLs := ExecuteSQLs task'\<rparr>" "e \<noteq> None"
  | (status) evs err where
      "h' = h @ evs @ [EvUpdateTaskStatusById (ID task) TaskStatusExecuting (Some err)]"
      "list_all prepare_events evs"
      "task' = task\<lparr>ExecuteSQLs := ExecuteSQLs task'\<rparr>" "e = Some err"
  | (persist) evs sqls sqls2 err r where
      "h' = h @ evs @ [EvUpdateTaskStatusById (ID task) TaskStatusExecuting None,
                    EvCommitDMLs sqls, EvUpdateExecuteSQLs sqls2 (Some err),
                    EvLog ''save commit sql to storage failed'',
                    EvUpdateTaskStatusById (ID task) TaskStatusExecuteFailed r]
                   @ (if r \<noteq> None then [EvLog ''update task exec_status failed''] else [])"
      "list_all prepare_events evs" "task' = task\<lparr>ExecuteSQLs := sqls2\<rparr>" "e = Some err"
  | (finished) evs sqls sqls2 where
      "h' = h @ evs @ [EvUpdateTaskStatusById (ID task) TaskStatusExecuting None,
                    EvCommitDMLs sqls, EvUpdateExecuteSQLs sqls2 None,
                    EvUpdateTaskStatusById (ID task)
                      (taskStatus_loop TaskStatusExecuteSucceeded sqls2) e]"
      "list_all prepare_events evs" "task' = task\<lparr>ExecuteSQLs := sqls2\<rparr>"
proof -
  let ?h0 = "h @ [EvLog ''start commit'']"
  let ?h1 = "?h0 @ [EvUpdateExecuteSQLStatusByTaskId (ID task) SQLExecuteStatusDoing]"
  show ?thesis
  proof (cases "st_UpdateExecuteSQLStatusByTaskId env ?h0 task SQLExecuteStatusDoing")
    case (Some err)
    with assms have "h' = h @ [EvLog ''start commit'',
        EvUpdateExecuteSQLStatusByTaskId (ID task) SQLExecuteStatusDoing,
        EvLog ''update commit sql status to storage failed'']" "task' = task" "e = Some err"
      by (auto simp: commitDML_def Let_def)
    then show ?thesis
      by (intro prepare[of "[EvLog ''start commit'',
        EvUpdateExecuteSQLStatusByTaskId (ID task) SQLExecuteStatusDoing,
        EvLog ''update commit sql status to storage failed'']"]) simp_all
  next
    case None
    obtain h2 sqls e2 where p: "commitDML_parse env ?h1 (ExecuteSQLs task) = (h2, sqls, e2)"
      by (cases "commitDML_parse env ?h1 (ExecuteSQLs task)")
    from commitDML_parse_extends[OF p] obtain evp where
      evp: "h2 = ?h1 @ evp" "list_all prepare_events evp"
      by (auto simp: extends_by_def)
    let ?evs = "[EvLog ''start commit'',
        EvUpdateExecuteSQLStatusByTaskId (ID task) SQLExecuteStatusDoing] @ evp"
    have h2: "h2 = h @ ?evs" and pe: "list_all prepare_events ?evs"
      using evp by simp_all
    show ?thesis
    proof (cases e2)
      case (Some err)
      with assms None p have "h' = h2" "task' = task\<lparr>ExecuteSQLs := sqls\<rparr>" "e = Some err"
        by (auto simp: commitDML_def Let_def)
      with h2 pe show ?thesis by (intro prepare[of ?evs]) simp_all
    next
      case pn: None
      show ?thesis
      proof (cases "st_UpdateTaskStatusById env h2 (ID task) TaskStatusExecuting")
        case (Some err)
        with assms None p pn have
          "h' = h2 @ [EvUpdateTaskStatusById (ID task) TaskStatusExecuting (Some err)]"
          "task' = task\<lparr>ExecuteSQLs := sqls\<rparr>" "e = Some err"
          by (auto simp: commitDML_def Let_def)
        with h2 pe show ?thesis by (intro status[of ?evs err]) simp_all
      next
        case sn: None
        let ?h3 = "h2 @ [EvUpdateTaskStatusById (ID task) TaskStatusExecuting None]"
        let ?sqls2 = "set_exec sqls (i_CommitDMLs env ?h3 (map BaseSQL.truncate sqls))"
        let ?h4 = "?h3 @ [EvCommitDMLs (map BaseSQL.truncate sqls)]"
        let ?t2 = "task\<lparr>ExecuteSQLs := ?sqls2\<rparr>"
        show ?thesis
        proof (cases "st_UpdateExecuteSQLs env ?h4 ?t2 ?sqls2")
          case (Some err)
          let ?h6 = "?h4 @ [EvUpdateExecuteSQLs ?sqls2 (Some err),
                            EvLog ''save commit sql to storage failed'']"
          let ?r = "st_UpdateTaskStatusById env ?h6 (ID task) TaskStatusExecuteFailed"
          from assms None p pn sn Some have
            "h' = h2 @ [EvUpdateTaskStatusById (ID task) TaskStatusExecuting None,
                    EvCommitDMLs (map BaseSQL.truncate sqls), EvUpdateExecuteSQLs ?sqls2 (Some err),
                    EvLog ''save commit sql to storage failed'',
                    EvUpdateTaskStatusById (ID task) TaskStatusExecuteFailed ?r]
                   @ (if ?r \<noteq> None then [EvLog ''update task exec_status failed''] else [])"
            "task' = ?t2" "e = Some err"
            by (auto simp: commitDML_def Let_def)
          with h2 pe show ?thesis
            by (intro persist[of ?evs "map BaseSQL.truncate sqls" ?sqls2 err ?r]) simp_all
        next
          case un: None
          with assms None p pn sn have
            "h' = h2 @ [EvUpdateTaskStatusById (ID task) TaskStatusExecuting None,
                    EvCommitDMLs (map BaseSQL.truncate sqls), EvUpdateExecuteSQLs ?sqls2 None,
                    EvUpdateTaskStatusById (ID task)
                      (taskStatus_loop TaskStatusExecuteSucceeded ?sqls2) e]"
            "task' = ?t2"
            by (auto simp: commitDML_def Let_def)
          with h2 pe show ?thesis
            by (intro finished[of ?evs "map BaseSQL.truncate sqls" ?sqls2]) simp_all
        qed
      qed
    qed
  qed
qed


lemma prepare_events_commit: "prepare_events e \<Longrightarrow> commit_events e"
  by (cases e) simp_all

lemma action_events_commit: "action_events e \<Longrightarrow> commit_events e"
  by (cases e) simp_all

lemma commitDDL_Do_props:
  assumes "Do (\<lambda>sql. True) (commitDDL_action env isPF) h sqls = (h', sqls', e)"
  shows "extends_by action_events h h'"
  using assms by (rule Do_extends[rotated]) (rule commitDDL_action_basic(1))

lemma commitDDL_protocol:
  assumes "commitDDL env h task isPF = (h', task', e)"
  shows "executing_before_exec (ID task) False (new_events h h')"
    and "e = None \<longrightarrow> status_writes (new_events h h')
            = [TaskStatusExecuting, spec_final_status (ExecuteSQLs task')]"
    and "task' = task\<lparr>ExecuteSQLs := ExecuteSQLs task'\<rparr>"
    and "extends_by commit_events h h'"
proof -
  have "executing_before_exec (ID task) False (new_events h h')
      \<and> (e = None \<longrightarrow> status_writes (new_events h h')
            = [TaskStatusExecuting, spec_final_status (ExecuteSQLs task')])
      \<and> task' = task\<lparr>ExecuteSQLs := ExecuteSQLs task'\<rparr>
      \<and> extends_by commit_events h h'"
    using commitDDL_cases[OF assms]
  proof (elim disjE exE conjE)
    fix h1 err
    assume a: "commitDDL_Add env (h @ [EvLog ''start commit'']) (ExecuteSQLs task) = (h1, Some err)"
      and r: "h' = h1" "task' = task" "e = Some err"
    from commitDDL_Add_extends[OF a] obtain evs where
      evs: "h1 = (h @ [EvLog ''start commit'']) @ evs" "list_all prepare_events evs"
      by (auto simp: extends_by_def)
    have ne: "new_events h h' = EvLog ''start commit'' # evs"
      using evs(1) r(1) by (simp add: new_events_def)
    have pe: "list_all prepare_events (EvLog ''start commit'' # evs)" using evs(2) by simp
    have "extends_by prepare_events h h'"
      using evs r(1) by (simp add: extends_by_def)
    then have "extends_by commit_events h h'"
      by (rule extends_by_mono) (rule prepare_events_commit)
    moreover have "executing_before_exec (ID task) False (new_events h h')"
      unfolding ne by (rule ebe_no_exec[OF prepare_events_readers(3)[OF pe]])
    moreover have "task' = task\<lparr>ExecuteSQLs := ExecuteSQLs task'\<rparr>"
      using r(2) by simp
    ultimately show ?thesis using r(3) by simp
  next
    fix h1 err
    assume a: "commitDDL_Add env (h @ [EvLog ''start commit'']) (ExecuteSQLs task) = (h1, None)"
      and r: "h' = h1 @ [EvUpdateTaskStatusById (ID task) TaskStatusExecuting (Some err)]"
        "task' = task" "e = Some err"
    from commitDDL_Add_extends[OF a] obtain evs where
      evs: "h1 = (h @ [EvLog ''start commit'']) @ evs" "list_all prepare_events evs"
      by (auto simp: extends_by_def)
    let ?evs = "EvLog ''start commit'' # evs
                 @ [EvUpdateTaskStatusById (ID task) TaskStatusExecuting (Some err)]"
    have ne: "new_events h h' = ?evs"
      using evs(1) r(1) by (simp add: new_events_def)
    have pe: "list_all (\<lambda>e. \<not> executes e) ?evs"
      using prepare_events_readers(3)[OF evs(2)] by simp
    have "list_all commit_events ?evs"
      using evs(2) by (auto simp: list_all_iff dest: prepare_events_commit)
    then have "extends_by commit_events h h'"
      using evs(1) r(1) by (simp add: extends_by_def)
    moreover have "executing_before_exec (ID task) False (new_events h h')"
      unfolding ne by (rule ebe_no_exec[OF pe])
    moreover have "task' = task\<lparr>ExecuteSQLs := ExecuteSQLs task'\<rparr>"
      using r(2) by simp
    ultimately show ?thesis using r(3) by simp
  next
    fix h1 h2 sqls err2 m
    assume a: "commitDDL_Add env (h @ [EvLog ''start commit'']) (ExecuteSQLs task) = (h1, None)"
      and d: "Do (\<lambda>sql. True) (commitDDL_action env isPF)
                 (h1 @ [EvUpdateTaskStatusById (ID task) TaskStatusExecuting None])
                 (ExecuteSQLs task) = (h2, sqls, err2)"
      and r: "h' = h2 @ [EvLog m,
                 EvUpdateTaskStatusById (ID task) (taskStatus_loop TaskStatusExecuteSucceeded sqls) e]"
        "task' = task\<lparr>ExecuteSQLs := sqls\<rparr>"
    from commitDDL_Add_extends[OF a] obtain evs where
      evs: "h1 = (h @ [EvLog ''start commit'']) @ evs" "list_all prepare_events evs"
      by (auto simp: extends_by_def)
    from commitDDL_Do_props[OF d] obtain evd where
      evd: "h2 = (h1 @ [EvUpdateTaskStatusById (ID task) TaskStatusExecuting None]) @ evd"
        "list_all action_events evd"
      by (auto simp: extends_by_def)
    let ?pre = "EvLog ''start commit'' # evs"
    let ?post = "evd @ [EvLog m,
                 EvUpdateTaskStatusById (ID task) (spec_final_status sqls) e]"
    have ne: "new_events h h' =
        ?pre @ EvUpdateTaskStatusById (ID task) TaskStatusExecuting None # ?post"
      using evs(1) evd(1) r(1) by (simp add: new_events_def taskStatus_loop_spec)
    have pe: "list_all prepare_events ?pre" using evs(2) by simp
    have ebe: "executing_before_exec (ID task) False (new_events h h')"
      unfolding ne by (rule ebe_prefix[OF prepare_events_readers(3)[OF pe]])
    have sw: "status_writes (new_events h h') =
        TaskStatusExecuting # (if e = None then [spec_final_status sqls] else [])"
      unfolding ne
      by (simp add: commit_reader_simps prepare_events_readers(1)[OF evs(2)]
          action_events_readers[OF evd(2)])
    have "list_all commit_events (new_events h h')"
      unfolding ne using evs(2) evd(2)
      by (auto simp: list_all_iff dest: prepare_events_commit action_events_commit)
    moreover have "h' = h @ new_events h h'"
      unfolding ne using evs(1) evd(1) r(1) by (simp add: taskStatus_loop_spec)
    ultimately have "extends_by commit_events h h'"
      unfolding extends_by_def by blast
    moreover have "task' = task\<lparr>ExecuteSQLs := ExecuteSQLs task'\<rparr>"
      and "ExecuteSQLs task' = sqls"
      using r(2) by simp_all
    ultimately show ?thesis using ebe sw by simp
  qed
  then show "executing_before_exec (ID task) False (new_events h h')"
    and "e = None \<longrightarrow> status_writes (new_events h h')
            = [TaskStatusExecuting, spec_final_status (ExecuteSQLs task')]"
    and "task' = task\<lparr>ExecuteSQLs := ExecuteSQLs task'\<rparr>"
    and "extends_by commit_events h h'"
    by simp_all
qed

lemma commitDML_protocol:
  assumes "commitDML env h task = (h', task', e)"
  shows "executing_before_exec (ID task) False (new_events h h')"
    and "e = None \<longrightarrow> status_writes (new_events h h')
            = [TaskStatusExecuting, spec_final_status (ExecuteSQLs task')]"
    and "task' = task\<lparr>ExecuteSQLs := ExecuteSQLs task'\<rparr>"
    and "extends_by commit_events h h'"
    and "persist_failures (new_events h h') \<noteq> [] \<longrightarrow>
           status_attempts (new_events h h') = [TaskStatusExecuting, TaskStatusExecuteFailed]
           \<and> e = Some (hd (persist_failures (new_events h h')))"
proof -
  have "executing_before_exec (ID task) False (new_events h h')
      \<and> (e = None \<longrightarrow> status_writes (new_events h h')
            = [TaskStatusExecuting, spec_final_status (ExecuteSQLs task')])
      \<and> task' = task\<lparr>ExecuteSQLs := ExecuteSQLs task'\<rparr>
      \<and> extends_by commit_events h h'
      \<and> (persist_failures (new_events h h') \<noteq> [] \<longrightarrow>
           status_attempts (new_events h h') = [TaskStatusExecuting, TaskStatusExecuteFailed]
           \<and> e = Some (hd (persist_failures (new_events h h'))))"
    using assms
  proof (cases rule: commitDML_cases)
    case (prepare evs)
    have ne: "new_events h h' = evs" using prepare(1) by (simp add: new_events_def)
    have "extends_by commit_events h h'"
      using prepare(1,2) by (auto simp: extends_by_def list_all_iff dest: prepare_events_commit)
    moreover have "executing_before_exec (ID task) False (new_events h h')"
      unfolding ne by (rule ebe_no_exec[OF prepare_events_readers(3)[OF prepare(2)]])
    moreover have "persist_failures (new_events h h') = []"
      unfolding ne by (rule prepare_events_readers2[OF prepare(2)])
    ultimately show ?thesis using prepare(3,4) by blast
  next
    case (status evs err)
    let ?evs = "evs @ [EvUpdateTaskStatusById (ID task) TaskStatusExecuting (Some err)]"
    have ne: "new_events h h' = ?evs" using status(1) by (simp add: new_events_def)
    have pe: "list_all (\<lambda>e. \<not> executes e) ?evs"
      using prepare_events_readers(3)[OF status(2)] by simp
    have "extends_by commit_events h h'"
      using status(1,2) by (auto simp: extends_by_def list_all_iff dest: prepare_events_commit)
    moreover have "executing_before_exec (ID task) False (new_events h h')"
      unfolding ne by (rule ebe_no_exec[OF pe])
    moreover have "persist_failures (new_events h h') = []"
      unfolding ne by (simp add: commit_reader_simps2 prepare_events_readers2[OF status(2)])
    moreover have "e \<noteq> None" using status(4) by simp
    ultimately show ?thesis using status(3) by blast
  next
    case (persist evs sqls sqls2 err r)
    let ?post = "[EvCommitDMLs sqls, EvUpdateExecuteSQLs sqls2 (Some err),
                    EvLog ''save commit sql to storage failed'',
                    EvUpdateTaskStatusById (ID task) TaskStatusExecuteFailed r]
                   @ (if r \<noteq> None then [EvLog ''update task exec_status failed''] else [])"
    have ne: "new_events h h' =
        evs @ EvUpdateTaskStatusById (ID task) TaskStatusExecuting None # ?post"
      using persist(1) by (simp add: new_events_def)
    have ebe: "executing_before_exec (ID task) False (new_events h h')"
      unfolding ne by (rule ebe_prefix[OF prepare_events_readers(3)[OF persist(2)]])
    have "extends_by commit_events h h'"
      using persist(1,2) by (auto simp: extends_by_def list_all_iff dest: prepare_events_commit)
    moreover have "persist_failures (new_events h h') = [err]"
      and "status_attempts (new_events h h') = [TaskStatusExecuting, TaskStatusExecuteFailed]"
      unfolding ne
      by (simp_all add: commit_reader_simps2 prepare_events_readers2[OF persist(2)])
    moreover have "task' = task\<lparr>ExecuteSQLs := ExecuteSQLs task'\<rparr>"
      using persist(3) by simp
    ultimately show ?thesis using ebe persist(4) by simp
  next
    case (finished evs sqls sqls2)
    let ?post = "[EvCommitDMLs sqls, EvUpdateExecuteSQLs sqls2 None,
                    EvUpdateTaskStatusById (ID task) (spec_final_status sqls2) e]"
    have ne: "new_events h h' =
        evs @ EvUpdateTaskStatusById (ID task) TaskStatusExecuting None # ?post"
      using finished(1) by (simp add: new_events_def taskStatus_loop_spec)
    have ebe: "executing_before_exec (ID task) False (new_events h h')"
      unfolding ne by (rule ebe_prefix[OF prepare_events_readers(3)[OF finished(2)]])
    have "extends_by commit_events h h'"
      using finished(1,2) by (auto simp: extends_by_def list_all_iff dest: prepare_events_commit)
    moreover have "persist_failures (new_events h h') = []"
      and "status_writes (new_events h h') =
        TaskStatusExecuting # (if e = None then [spec_final_status sqls2] else [])"
      unfolding ne
      by (simp_all add: commit_reader_simps commit_reader_simps2
          prepare_events_readers[OF finished(2)] prepare_events_readers2[OF finished(2)])
    moreover have "task' = task\<lparr>ExecuteSQLs := ExecuteSQLs task'\<rparr>"
      and "ExecuteSQLs task' = sqls2"
      using finished(3) by simp_all
    ultimately show ?thesis using ebe by simp
  qed
  then show "executing_before_exec (ID task) False (new_events h h')"
    and "e = None \<longrightarrow> status_writes (new_events h h')
            = [TaskStatusExecuting, spec_final_status (ExecuteSQLs task')]"
    and "task' = task\<lparr>ExecuteSQLs := ExecuteSQLs task'\<rparr>"
    and "extends_by commit_events h h'"
    and "persist_failures (new_events h h') \<noteq> [] \<longrightarrow>
           status_attempts (new_events h h') = [TaskStatusExecuting, TaskStatusExecuteFailed]
           \<and> e = Some (hd (persist_failures (new_events h h')))"
    by simp_all
qed


section \<open>The rollback workflow as a whole\<close>

lemma rollback_frame:
  assumes "rollback env h task = (h', task', err)"
  shows "extends_by rollback_events h h'"
    and "task' = task\<lparr>RollbackSQLs := RollbackSQLs task'\<rparr>"
    and "list_all2 only_exec_fields (RollbackSQLs task) (RollbackSQLs task')"
proof -
  let ?h0 = "h @ [EvLog ''start rollback sql'']"
  obtain h1 e1 where a: "rollback_Add env ?h0 (RollbackSQLs task) = (h1, e1)"
    by (cases "rollback_Add env ?h0 (RollbackSQLs task)")
  have xa: "extends_by rollback_events h h1"
    by (rule extends_by_app_left[OF rollback_Add_extends[OF a]]) simp
  obtain h2 sqls e2 where d:
    "Do (\<lambda>sql. Content sql \<noteq> []) (rollback_action env) h1 (RollbackSQLs task) = (h2, sqls, e2)"
    by (cases "Do (\<lambda>sql. Content sql \<noteq> []) (rollback_action env) h1 (RollbackSQLs task)")
  have xd: "extends_by rollback_events h1 h2"
    using d by (rule Do_extends[rotated]) (rule rollback_action_props(1))
  have rd: "list_all2 only_exec_fields (RollbackSQLs task) sqls"
    using d by (rule Do_list_all2[rotated 2]) (simp_all add: rollback_action_props(2))
  have ext: "extends_by rollback_events h h'"
    using assms a d xa extends_by_trans[OF xa xd]
    by (auto simp: rollback_def split: option.splits intro!: extends_by_app_right)
  have t: "task' = task \<or> task' = task\<lparr>RollbackSQLs := sqls\<rparr>"
    using assms a d by (auto simp: rollback_def split: option.splits)
  from ext show "extends_by rollback_events h h'" .
  from t show "task' = task\<lparr>RollbackSQLs := RollbackSQLs task'\<rparr>" by auto
  from t rd show "list_all2 only_exec_fields (RollbackSQLs task) (RollbackSQLs task')"
    by (auto simp: only_exec_fields_list_refl)
qed

section \<open>Rollback leaves the task status alone\<close>

text \<open>
  Claim C9. Whatever the rollback workflow returns, the task's status in memory is the
  one it had, the workflow has asked the store for no write of the task's fields (neither
  \<open>UpdateTask\<close> nor \<open>UpdateTaskStatusById\<close>), every field of the task but
  \<open>RollbackSQLs\<close> is as before, and each rollback statement differs from what it was
  in its execution status and execution result only.
\<close>

theorem rollback_keeps_status:
  assumes "rollback env h task = (h', task', err)"
  shows "Status task' = Status task
       \<and> list_all (\<lambda>e. \<not> writes_task_fields e) (new_events h h')
       \<and> task' = task\<lparr>RollbackSQLs := RollbackSQLs task'\<rparr>
       \<and> list_all2 only_exec_fields (RollbackSQLs task) (RollbackSQLs task')"
proof -
  note f = rollback_frame [OF assms]
  have "list_all rollback_events (new_events h h')"
    by (rule extends_by_new_events[OF f(1)])
  then have ev: "list_all (\<lambda>e. \<not> writes_task_fields e) (new_events h h')"
    by (auto simp: list_all_iff dest: rollback_events_no_task_fields)
  have st: "Status task' = Status task"
    by (subst f(2)) simp
  from st ev f(2,3) show ?thesis by simp
qed

theorem rollback_keeps_status_witness:
  "snd (snd (rollback env_ddl [] task_done)) = None
   \<and> Status (fst (snd (rollback env_ddl [] task_done))) = TaskStatusExecuteSucceeded
   \<and> map ExecStatus (RollbackSQLs (fst (snd (rollback env_ddl [] task_done))))
       = [SQLExecuteStatus_Other ''succeeded'', SQLExecuteStatus_Other ''initialized'']
   \<and> snd (snd (rollback env_multi [] task_done)) = Some SQL_STMT_CONFLICT_ERROR
   \<and> Status (fst (snd (rollback env_multi [] task_done))) = TaskStatusExecuteSucceeded"
proof -
  have a: "rollback env_ddl [] task_done =
      (fst (rollback env_ddl [] task_done), fst (snd (rollback env_ddl [] task_done)),
       snd (snd (rollback env_ddl [] task_done)))"
    by simp
  have b: "rollback env_multi [] task_done =
      (fst (rollback env_multi [] task_done), fst (snd (rollback env_multi [] task_done)),
       snd (snd (rollback env_multi [] task_done)))"
    by simp
  note A = rollback_keeps_status [OF a, THEN conjunct1]
  note B = rollback_keeps_status [OF b, THEN conjunct1]
  have s: "Status task_done = TaskStatusExecuteSucceeded"
    by (simp add: task_done_def)
  have e: "snd (snd (rollback env_ddl [] task_done)) = None"
      "map ExecStatus (RollbackSQLs (fst (snd (rollback env_ddl [] task_done))))
         = [SQLExecuteStatus_Other ''succeeded'', SQLExecuteStatus_Other ''initialized'']"
      "snd (snd (rollback env_multi [] task_done)) = Some SQL_STMT_CONFLICT_ERROR"
    by (simp_all add: env_ddl_def env_multi_def env0_def task0_def rsql0_def task_done_def
        rollback_def rollback_action_def rollback_switch_def Add_def Let_def)
  show ?thesis using A B s e by simp
qed

section \<open>Validation failures of \<open>addTask\<close>\<close>

text \<open>
  Claim C7. An \<open>addTask\<close> call that gets past the running-task check and then fails
  validation, because the store does not know the id or because \<open>ValidAction\<close> refuses
  the action for the task, returns \<open>TASK_NOT_EXIST\<close> or the error of \<open>ValidAction\<close>,
  and leaves the scheduler as it found it: the id is not in \<open>currentTask\<close> and the queue
  holds what it held. The only event is the lookup in the store, so no workflow ran.
\<close>

theorem addTask_validation_failure:
  assumes "taskId \<notin> currentTask s"
  shows "(st_GetTaskDetailById env h taskId = Inr None \<longrightarrow>
           addTask env h s taskId typ =
             (h @ [EvGetTaskDetailById taskId], s, \<lparr>Task = None, Typ = typ, Error = None\<rparr>,
              Some TASK_NOT_EXIST))
       \<and> (\<forall>task err. st_GetTaskDetailById env h taskId = Inr (Some task)
              \<and> ValidAction env task typ = Some err \<longrightarrow>
           addTask env h s taskId typ =
             (h @ [EvGetTaskDetailById taskId], s, \<lparr>Task = None, Typ = typ, Error = None\<rparr>,
              Some err))"
  using assms by (simp add: addTask_def Let_def)

theorem addTask_validation_failure_witness:
  "addTask env_store [] sqled0 ''42'' TASK_ACTION_AUDIT =
     ([EvGetTaskDetailById ''42''], sqled0,
      \<lparr>Task = None, Typ = TASK_ACTION_AUDIT, Error = None\<rparr>, Some TASK_NOT_EXIST)
   \<and> addTask env_store [] sqled0 ''7'' TASK_ACTION_ROLLBACK =
     ([EvGetTaskDetailById ''7''], sqled0,
      \<lparr>Task = None, Typ = TASK_ACTION_ROLLBACK, Error = None\<rparr>,
      Some (Errorf ''action not allowed''))
   \<and> \<not> HasTask sqled0 ''42'' \<and> \<not> HasTask sqled0 ''7'' \<and> queue sqled0 = []"
  using addTask_validation_failure [of "''42''" sqled0 env_store "[]" TASK_ACTION_AUDIT]
    addTask_validation_failure [of "''7''" sqled0 env_store "[]" TASK_ACTION_ROLLBACK]
  by (simp add: env_store_def env0_def sqled0_def HasTask_def task0_def)

section \<open>Commit of a task whose SQL type is undetermined\<close>

text \<open>
  Claim C3. When the stored SQL type of the task is none of DML, DDL and
  procedure/function (an unset type among them), \<open>commit\<close> classifies the batch with
  \<open>ParseSqlType\<close>. If that succeeds and the class is \<open>SQL_TYPE_MULTI\<close>, the commit returns
  \<open>SQL_STMT_CONFLICT_ERROR\<close>; if it is \<open>SQL_TYPE_PROCEDURE_FUNCTION_MULTI\<close>, it returns
  \<open>SQL_STMT_PROCEUDRE_FUNCTION_ERROR\<close>. In both cases the task in memory is untouched and
  the classification is the only event: nothing was executed, nothing written to the
  store.
\<close>

theorem commit_unclassified_conflict_aborts:
  assumes "SQLType task \<notin> {SQL_TYPE_DML, SQL_TYPE_DDL, SQL_TYPE_PROCEDURE_FUNCTION}"
      and "i_ParseSqlType env h task = None"
  shows "(i_SqlType env (h @ [EvParseSqlType]) = SQL_TYPE_MULTI \<longrightarrow>
            commit env h task = (h @ [EvParseSqlType], task, Some SQL_STMT_CONFLICT_ERROR))
       \<and> (i_SqlType env (h @ [EvParseSqlType]) = SQL_TYPE_PROCEDURE_FUNCTION_MULTI \<longrightarrow>
            commit env h task =
              (h @ [EvParseSqlType], task, Some SQL_STMT_PROCEUDRE_FUNCTION_ERROR))
       \<and> \<not> executes EvParseSqlType \<and> \<not> updates_store EvParseSqlType"
  using assms by (simp add: commit_def Let_def)

theorem commit_unclassified_conflict_aborts_witness:
  "SQLType task_mixed = SQL_TYPE_Other []
   \<and> commit env_multi [] task_mixed = ([EvParseSqlType], task_mixed, Some SQL_STMT_CONFLICT_ERROR)
   \<and> commit env_pf_multi [] task_mixed =
       ([EvParseSqlType], task_mixed, Some SQL_STMT_PROCEUDRE_FUNCTION_ERROR)"
  using commit_unclassified_conflict_aborts [of task_mixed env_multi "[]"]
    commit_unclassified_conflict_aborts [of task_mixed env_pf_multi "[]"]
  by (simp add: env_multi_def env_pf_multi_def env0_def task_mixed_def task0_def)

section \<open>Commit as a whole\<close>

lemma commit_frame:
  assumes "commit env h task = (h', task', e)"
  shows "task' = task\<lparr>ExecuteSQLs := ExecuteSQLs task'\<rparr>" and "extends_by commit_events h h'"
proof -
  have "task' = task\<lparr>ExecuteSQLs := ExecuteSQLs task'\<rparr> \<and> extends_by commit_events h h'"
  proof (cases "SQLType task = SQL_TYPE_DML")
    case True
    with assms have "commitDML env h task = (h', task', e)" by (simp add: commit_def)
    from commitDML_protocol(3,4)[OF this] show ?thesis by simp
  next
    case ndml: False
    show ?thesis
    proof (cases "SQLType task = SQL_TYPE_DDL")
      case True
      with assms have "commitDDL env h task False = (h', task', e)" by (simp add: commit_def)
      from commitDDL_protocol(3,4)[OF this] show ?thesis by simp
    next
      case nddl: False
      show ?thesis
      proof (cases "SQLType task = SQL_TYPE_PROCEDURE_FUNCTION")
        case True
        with assms have "commitDDL env h task True = (h', task', e)" by (simp add: commit_def)
        from commitDDL_protocol(3,4)[OF this] show ?thesis by simp
      next
        case npf: False
        show ?thesis
        proof (cases "i_ParseSqlType env h task")
          case (Some err)
          with assms ndml nddl npf have "h' = h @ [EvParseSqlType]" "task' = task"
            by (auto simp: commit_def)
          then show ?thesis by simp
        next
          case None
          let ?h1 = "h @ [EvParseSqlType]"
          have up: "extends_by commit_events ?h1 h' \<Longrightarrow> extends_by commit_events h h'"
            by (erule extends_by_app_left) simp
          show ?thesis
          proof (cases "i_SqlType env ?h1")
            case SQL_TYPE_DML
            with assms ndml nddl npf None have "commitDML env ?h1 task = (h', task', e)"
              by (simp add: commit_def)
            from commitDML_protocol(3,4)[OF this] up show ?thesis by simp
          next
            case SQL_TYPE_DDL
            with assms ndml nddl npf None have "commitDDL env ?h1 task False = (h', task', e)"
              by (simp add: commit_def)
            from commitDDL_protocol(3,4)[OF this] up show ?thesis by simp
          next
            case SQL_TYPE_MULTI
            with assms ndml nddl npf None have "h' = ?h1" "task' = task"
              by (auto simp: commit_def)
            then show ?thesis by simp
          next
            case SQL_TYPE_PROCEDURE_FUNCTION
            with assms ndml nddl npf None have "commitDDL env ?h1 task True = (h', task', e)"
              by (simp add: commit_def)
            from commitDDL_protocol(3,4)[OF this] up show ?thesis by simp
          next
            case SQL_TYPE_PROCEDURE_FUNCTION_MULTI
            with assms ndml nddl npf None have "h' = ?h1" "task' = task"
              by (auto simp: commit_def)
            then show ?thesis by simp
          next
            case (SQL_TYPE_Other x)
            with assms ndml nddl npf None have "h' = ?h1" "task' = task"
              by (auto simp: commit_def)
            then show ?thesis by simp
          qed
        qed
      qed
    qed
  qed
  then show "task' = task\<lparr>ExecuteSQLs := ExecuteSQLs task'\<rparr>"
    and "extends_by commit_events h h'" by simp_all
qed





lemma Content_truncate [simp]: "Content (BaseSQL.truncate sql) = Content sql"
  by (simp add: BaseSQL.truncate_def)


section \<open>Running the samples\<close>

lemmas sample_defs = env0_def task0_def sql0_def rsql0_def task_three_def task_dml_def
  env_nopersist_def env_exec_fails_def env_nobackup_def env_backup_fails_def env_retry_def
  env_gen_def env_invalid_def env_coerce_def task_pf_def sql_pf_def task_done_def env_ddl_def
  sqled0_def

lemmas audit_defs = audit_def audit_advise_def audit_generate_def audit_save_def Let_def
  new_events_def


lemmas rollback_defs = rollback_def rollback_action_def rollback_switch_def Add_def Let_def
  new_events_def

lemma triple: "x = (fst x, fst (snd x), snd (snd x))"
  by simp

section \<open>The pass rate\<close>



section \<open>Rollback generation in the audit\<close>

text \<open>
  Claim C4. In the audit workflow \<open>GenerateAllRollbackSql\<close> is called exactly when the
  first pass gave a verdict, the verdict is "not invalid", and the task's SQL source is
  not the MyBatis XML file; it is called at most once. \<open>UpdateRollbackSQLs\<close> is called
  only with the non-empty list that the generation returned; and when the audit returns
  without error and the generation returned a non-empty list, that list is persisted.
\<close>

theorem audit_generates_rollback_unless_invalid_or_mybatis:
  assumes "audit env h task = (h', task', err)"
  shows "(generations (new_events h h') \<noteq> [] \<longleftrightarrow>
           (\<exists>ty. first_pass env h task = Some (False, ty))
           \<and> SQLSource task \<noteq> TaskSQLSourceFromMyBatisXMLFile)
       \<and> length (generations (new_events h h')) \<le> 1
       \<and> (persisted_rollbacks (new_events h h') = []
          \<or> (\<exists>rollbackSqls. rollbackSqls \<noteq> []
                \<and> generations (new_events h h') = [Inr rollbackSqls]
                \<and> persisted_rollbacks (new_events h h') = [rollbackSqls]))
       \<and> (\<forall>rollbackSqls. err = None \<and> generations (new_events h h') = [Inr rollbackSqls]
                \<and> rollbackSqls \<noteq> []
              \<longrightarrow> persisted_rollbacks (new_events h h') = [rollbackSqls])"
  using audit_decompose[OF assms]
proof (elim disjE exE conjE)
  fix err0
  assume "st_GetRulesByInstanceId env h (InstanceId task) = Inl err0"
    and "h' = h @ [EvGetRulesByInstanceId (InstanceId task),
                   EvLog ''get instance rule from storage failed'']"
  then show ?thesis by (simp add: reader_simps first_pass_rules_fail)
next
  fix rules h1 task1 r e
  assume rules: "st_GetRulesByInstanceId env h (InstanceId task) = Inr rules"
    and adv: "audit_advise env (h @ [EvGetRulesByInstanceId (InstanceId task)]) task rules = (h1, task1, r)"
    and r: "r = Inl e" and h': "h' = h1"
  from audit_advise_phase[OF adv] r obtain evs where
    evs: "h1 = (h @ [EvGetRulesByInstanceId (InstanceId task)]) @ evs" "list_all advise_events evs"
      "(\<exists>err0. i_Advise env (h @ [EvGetRulesByInstanceId (InstanceId task)]) task [] rules = Inl err0)
       \<or> i_SqlInvalid env ((h @ [EvGetRulesByInstanceId (InstanceId task)]) @ [EvAdvise []])"
    by blast
  have fp: "first_pass env h task \<noteq> Some (False, ty)" for ty
    using evs(3) by (auto simp: first_pass_rules_ok[OF rules] split: sum.splits)
  from evs(1,2) h' fp show ?thesis
    by (simp add: reader_simps advise_events_readers)
next
  fix rules h1 task1 r invalid ty h2 g e
  assume rules: "st_GetRulesByInstanceId env h (InstanceId task) = Inr rules"
    and adv: "audit_advise env (h @ [EvGetRulesByInstanceId (InstanceId task)]) task rules = (h1, task1, r)"
    and r: "r = Inr (invalid, ty)"
    and gen: "audit_generate env h1 task1 invalid = (h2, g)"
    and g: "g = Inl e" and h': "h' = h2"
  from audit_advise_phase[OF adv] r obtain evs sqls where
    evs: "h1 = (h @ [EvGetRulesByInstanceId (InstanceId task)]) @ evs" "list_all advise_events evs"
      "task1 = task\<lparr>ExecuteSQLs := ExecuteSQLs task1\<rparr>"
      "i_Advise env (h @ [EvGetRulesByInstanceId (InstanceId task)]) task [] rules = Inr sqls"
      "invalid = i_SqlInvalid env ((h @ [EvGetRulesByInstanceId (InstanceId task)]) @ [EvAdvise []])"
      "ty = i_SqlType env ((h @ [EvGetRulesByInstanceId (InstanceId task)]) @ [EvAdvise []])"
    by blast
  have src: "SQLSource task1 = SQLSource task"
    by (subst evs(3)) simp
  from audit_generate_phase[OF gen] obtain evg where
    evg: "h2 = h1 @ evg" "list_all generate_events evg"
      "generations evg \<noteq> [] \<longleftrightarrow> \<not> invalid \<and> SQLSource task1 \<noteq> TaskSQLSourceFromMyBatisXMLFile"
      "generations evg = [] \<or> generations evg = [g]"
      "generations evg = [] \<longrightarrow> g = Inr []"
    by blast
  have fp: "first_pass env h task = Some (invalid, ty)"
    using evs(4,5,6) by (simp add: first_pass_rules_ok[OF rules])
  from evs(1,2) evg h' g src fp show ?thesis
    by (auto simp: reader_simps advise_events_readers generate_events_readers)
next
  fix rules h1 task1 r invalid ty h2 g rollbackSqls
  assume rules: "st_GetRulesByInstanceId env h (InstanceId task) = Inr rules"
    and adv: "audit_advise env (h @ [EvGetRulesByInstanceId (InstanceId task)]) task rules = (h1, task1, r)"
    and r: "r = Inr (invalid, ty)"
    and gen: "audit_generate env h1 task1 invalid = (h2, g)"
    and g: "g = Inr rollbackSqls"
    and sav: "audit_save env h2 task1 ty rollbackSqls = (h', task', err)"
  from audit_advise_phase[OF adv] r obtain evs sqls where
    evs: "h1 = (h @ [EvGetRulesByInstanceId (InstanceId task)]) @ evs" "list_all advise_events evs"
      "task1 = task\<lparr>ExecuteSQLs := ExecuteSQLs task1\<rparr>"
      "i_Advise env (h @ [EvGetRulesByInstanceId (InstanceId task)]) task [] rules = Inr sqls"
      "invalid = i_SqlInvalid env ((h @ [EvGetRulesByInstanceId (InstanceId task)]) @ [EvAdvise []])"
      "ty = i_SqlType env ((h @ [EvGetRulesByInstanceId (InstanceId task)]) @ [EvAdvise []])"
    by blast
  have src: "SQLSource task1 = SQLSource task"
    by (subst evs(3)) simp
  from audit_generate_phase[OF gen] obtain evg where
    evg: "h2 = h1 @ evg" "list_all generate_events evg"
      "generations evg \<noteq> [] \<longleftrightarrow> \<not> invalid \<and> SQLSource task1 \<noteq> TaskSQLSourceFromMyBatisXMLFile"
      "generations evg = [] \<or> generations evg = [g]"
      "generations evg = [] \<longrightarrow> g = Inr []"
    by blast
  from audit_save_phase[OF sav] obtain evsv where
    evsv: "h' = h2 @ evsv" "list_all save_events evsv"
      "persisted_rollbacks evsv = [] \<or> (rollbackSqls \<noteq> [] \<and> persisted_rollbacks evsv = [rollbackSqls])"
      "err = None \<and> rollbackSqls \<noteq> [] \<longrightarrow> persisted_rollbacks evsv = [rollbackSqls]"
    by blast
  have fp: "first_pass env h task = Some (invalid, ty)"
    using evs(4,5,6) by (simp add: first_pass_rules_ok[OF rules])
  have ne: "new_events h h' = EvGetRulesByInstanceId (InstanceId task) # evs @ evg @ evsv"
    using evs(1) evg(1) evsv(1) by (simp add: new_events_def)
  have gens: "generations (new_events h h') = generations evg"
    by (simp add: ne reader_simps advise_events_readers[OF evs(2)] save_events_readers[OF evsv(2)])
  have pers: "persisted_rollbacks (new_events h h') = persisted_rollbacks evsv"
    by (simp add: ne reader_simps advise_events_readers[OF evs(2)] generate_events_readers[OF evg(2)])
  show ?thesis
    unfolding gens pers using evg(3,4,5) evsv(3,4) g src fp by auto
qed


theorem audit_generates_rollback_witness:
  "persisted_rollbacks (new_events [] (fst (audit env_gen [] task_dml)))
     = [[rsql0 1 ''INSERT INTO t VALUES(1)'']]
   \<and> generations (new_events [] (fst (audit env_invalid [] task_dml))) = []
   \<and> persisted_rollbacks (new_events [] (fst (audit env_invalid [] task_dml))) = []"
proof -
  let ?A = "audit env_gen [] task_dml"
  let ?B = "audit env_invalid [] task_dml"
  have e: "snd (snd ?A) = None"
    by (simp add: sample_defs audit_defs)
  have g: "generations (new_events [] (fst ?A)) = [Inr [rsql0 1 ''INSERT INTO t VALUES(1)'']]"
    by (simp add: sample_defs audit_defs generations_def)
  have f: "first_pass env_invalid [] task_dml = Some (True, SQL_TYPE_DDL)"
    by (simp add: sample_defs first_pass_def)
  note TA = audit_generates_rollback_unless_invalid_or_mybatis [OF triple [of ?A]]
  note TB = audit_generates_rollback_unless_invalid_or_mybatis [OF triple [of ?B]]
  from TA e g have 1: "persisted_rollbacks (new_events [] (fst ?A))
     = [[rsql0 1 ''INSERT INTO t VALUES(1)'']]"
    by (simp add: rsql0_def)
  from TB f have 2: "generations (new_events [] (fst ?B)) = []"
    by simp
  with TB have 3: "persisted_rollbacks (new_events [] (fst ?B)) = []"
    by auto
  from 1 2 3 show ?thesis by simp
qed

section \<open>The retry of the audit\<close>



section \<open>Task status during a commit\<close>





section \<open>Backups of procedures and functions\<close>





section \<open>The running-task guard\<close>

text \<open>
  What holds of the guard: while an id is in \<open>currentTask\<close> every \<open>addTask\<close> for it
  fails with \<open>TASK_RUNNING\<close> and changes nothing; an accepted \<open>addTask\<close> found the id
  absent, inserted it and queued one action; and \<open>do\<close> deletes the decimal rendering of
  the task's numeric id, which no workflow changes.
\<close>

lemma addTask_running:
  "taskId \<in> currentTask s \<Longrightarrow>
   addTask env h s taskId typ = (h, s, \<lparr>Task = None, Typ = typ, Error = None\<rparr>, Some TASK_RUNNING)"
  by (simp add: addTask_def Let_def)

lemma addTask_accepted:
  assumes "addTask env h s taskId typ = (h', s', a, None)"
  shows "taskId \<notin> currentTask s \<and> currentTask s' = insert taskId (currentTask s)
       \<and> queue s' = queue s @ [a] \<and> (\<exists>task. Task a = Some task
            \<and> st_GetTaskDetailById env h taskId = Inr (Some task))"
  using assms
  by (auto simp: addTask_def Let_def split: if_splits sum.splits option.splits)

lemma audit_save_ID: "audit_save env h task sqlType rollbackSqls = (h1, task1, err) \<Longrightarrow> ID task1 = ID task"
  by (auto simp: audit_save_def Let_def split: option.splits if_splits)

lemma audit_keeps_ID:
  assumes "audit env h task = (h', task', err)"
  shows "ID task' = ID task"
  using audit_decompose[OF assms]
proof (elim disjE exE conjE)
  fix rules h1 task1 r e
  assume adv: "audit_advise env (h @ [EvGetRulesByInstanceId (InstanceId task)]) task rules = (h1, task1, r)"
    and t: "task' = task1"
  from audit_advise_phase[OF adv] have "task1 = task\<lparr>ExecuteSQLs := ExecuteSQLs task1\<rparr>" by blast
  then have "ID task1 = ID task" by (metis Task.select_convs(1) Task.surjective Task.update_convs(4))
  with t show ?thesis by simp
next
  fix rules h1 task1 r invalid ty h2 g e
  assume adv: "audit_advise env (h @ [EvGetRulesByInstanceId (InstanceId task)]) task rules = (h1, task1, r)"
    and t: "task' = task1"
  from audit_advise_phase[OF adv] have "task1 = task\<lparr>ExecuteSQLs := ExecuteSQLs task1\<rparr>" by blast
  then have "ID task1 = ID task" by (metis Task.select_convs(1) Task.surjective Task.update_convs(4))
  with t show ?thesis by simp
next
  fix rules h1 task1 r invalid ty h2 g rollbackSqls
  assume adv: "audit_advise env (h @ [EvGetRulesByInstanceId (InstanceId task)]) task rules = (h1, task1, r)"
    and sav: "audit_save env h2 task1 ty rollbackSqls = (h', task', err)"
  from audit_advise_phase[OF adv] have "task1 = task\<lparr>ExecuteSQLs := ExecuteSQLs task1\<rparr>" by blast
  then have "ID task1 = ID task" by (metis Task.select_convs(1) Task.surjective Task.update_convs(4))
  with audit_save_ID[OF sav] show ?thesis by simp
qed simp

lemma do_deletes_decimal_id:
  assumes "do env h s action = Some (h', s', action', e)" and "Task action = Some task"
  shows "currentTask s' = currentTask s - {Sprintf_d (ID task)}" and "queue s' = queue s"
proof -
  obtain h1 task1 err where w:
    "(case Typ action of
        TASK_ACTION_AUDIT \<Rightarrow> audit env h task
      | TASK_ACTION_EXECUTE \<Rightarrow> commit env h task
      | TASK_ACTION_ROLLBACK \<Rightarrow> rollback env h task
      | TASK_ACTION_Other x \<Rightarrow> (h, task, None)) = (h1, task1, err)"
    by (metis prod_cases3)
  have "ID task1 = ID task"
  proof (cases "Typ action")
    case TASK_ACTION_AUDIT
    with w show ?thesis by (simp add: audit_keeps_ID)
  next
    case TASK_ACTION_EXECUTE
    with w have c: "commit env h task = (h1, task1, err)" by simp
    show ?thesis by (subst commit_frame(1)[OF c]) simp
  next
    case TASK_ACTION_ROLLBACK
    with w have c: "rollback env h task = (h1, task1, err)" by simp
    show ?thesis by (subst rollback_frame(2)[OF c]) simp
  next
    case (TASK_ACTION_Other x)
    with w show ?thesis by simp
  qed
  with assms w show "currentTask s' = currentTask s - {Sprintf_d (ID task)}" and "queue s' = queue s"
    by (auto simp: do_def Let_def)
qed

text \<open>
  With a canonical store the guard is sound in every interleaving: no id is in flight
  twice, and \<open>currentTask\<close> holds exactly the ids in flight, so an id is inserted when
  its call is accepted and stays until its action has finished.
\<close>

lemma map_fst_remove1:
  "distinct (map fst xs) \<Longrightarrow> (k, v) \<in> set xs \<Longrightarrow>
   map fst (remove1 (k, v) xs) = remove1 k (map fst xs)"
proof (induction xs)
  case Nil
  then show ?case by simp
next
  case (Cons x xs)
  then show ?case by (cases x) (auto simp: rev_image_eqI)
qed

lemma sched_step_inv:
  assumes "canonical_store env" and "sched_step env s s'" and "guard_inv s"
  shows "guard_inv s'"
  using assms(2)
proof cases
  case (guard_taken taskId)
  with assms(3) show ?thesis
    by (auto simp: guard_inv_def in_flight_def keys_canonical_def list_all_iff)
next
  case (guard_refused taskId)
  with assms(3) show ?thesis by simp
next
  case (validation_failed taskId)
  with assms(3) show ?thesis
    by (auto simp: guard_inv_def in_flight_def keys_canonical_def list_all_iff)
next
  case (enqueued taskId h task ty)
  from assms(1) enqueued(3) have c: "Sprintf_d (ID task) = taskId"
    by (auto simp: canonical_store_def)
  from enqueued(1,2) assms(3) c show ?thesis
    by (auto simp: guard_inv_def in_flight_def keys_canonical_def list_all_iff)
next
  case (dispatched a rest)
  with assms(3) show ?thesis
    by (auto simp: guard_inv_def in_flight_def keys_canonical_def list_all_iff)
next
  case (finished taskId task)
  from assms(3) have d: "distinct (map fst (executing s))"
    by (simp add: guard_inv_def in_flight_def)
  from assms(3) finished(2) have c: "Sprintf_d (ID task) = taskId"
    by (force simp: guard_inv_def keys_canonical_def list_all_iff)
  have m: "map fst (remove1 (taskId, task) (executing s)) = remove1 taskId (map fst (executing s))"
    using d finished(2) by (rule map_fst_remove1)
  have k: "taskId \<in> set (map fst (executing s))"
    using finished(2) by force
  have ks: "set (remove1 (taskId, task) (executing s)) \<subseteq> set (executing s)"
    by (rule set_remove1_subset)
  from assms(3) have 1: "distinct (in_flight s')"
    unfolding finished(1) by (auto simp: guard_inv_def in_flight_def m)
  from assms(3) k have 2: "set (in_flight s') = cur s'"
    unfolding finished(1) c
    by (auto simp: guard_inv_def in_flight_def m)
  from assms(3) ks have 3: "keys_canonical s'"
    unfolding finished(1) by (fastforce simp: guard_inv_def keys_canonical_def list_all_iff)
  from 1 2 3 show ?thesis by (simp add: guard_inv_def)
qed

lemma guard_sound_for_canonical_ids:
  assumes "canonical_store env" and "(sched_step env)\<^sup>*\<^sup>* flights0 s"
  shows "distinct (in_flight s)" and "set (in_flight s) = cur s"
proof -
  from assms(2) have "guard_inv s"
  proof (induction rule: rtranclp_induct)
    case base
    show ?case by (simp add: guard_inv_def in_flight_def flights0_def keys_canonical_def list_all_iff)
  next
    case (step y z)
    with assms(1) show ?case by (blast intro: sched_step_inv)
  qed
  then show "distinct (in_flight s)" and "set (in_flight s) = cur s"
    by (simp_all add: guard_inv_def)
qed

text \<open>
  Claim C1. \<open>addTask\<close> inserts the id string it was called with, and \<open>do\<close> deletes
  the decimal rendering of the numeric id of the task the store returned. With a store
  that finds task 7 under the id \<open>07\<close>:
  \<^item> after \<open>addTask\<close> for \<open>07\<close> and the run of the queued action, \<open>07\<close> is still in
    \<open>currentTask\<close> though the queue is empty and nothing is running, and a further
    \<open>addTask\<close> for \<open>07\<close> fails with \<open>TASK_RUNNING\<close>;
  \<^item> after \<open>addTask\<close> for \<open>07\<close> and for \<open>7\<close>, the run of the first action deletes
    \<open>7\<close> while the action enqueued under \<open>7\<close> is still waiting, and a further
    \<open>addTask\<close> for \<open>7\<close> is accepted: two actions enqueued under the id \<open>7\<close> are in
    flight.
\<close>

theorem scheduler_guard_key_mismatch:
  "(case addTask env_coerce [] sqled0 ''07'' TASK_ACTION_AUDIT of
      (h1, s1, a1, e1) \<Rightarrow>
        e1 = None \<and> HasTask s1 ''07''
        \<and> (case taskLoop_step env_coerce h1 s1 of
              None \<Rightarrow> False
            | Some (h2, s2, a2, e2) \<Rightarrow>
                e2 = None \<and> queue s2 = [] \<and> HasTask s2 ''07''
                \<and> snd (snd (snd (addTask env_coerce h2 s2 ''07'' TASK_ACTION_AUDIT)))
                    = Some TASK_RUNNING))
   \<and> (case addTask env_coerce [] sqled0 ''07'' TASK_ACTION_AUDIT of
      (h1, s1, a1, e1) \<Rightarrow>
        (case addTask env_coerce h1 s1 ''7'' TASK_ACTION_AUDIT of
           (h2, s2, a2, e2) \<Rightarrow>
             e1 = None \<and> e2 = None \<and> queue s2 = [a1, a2]
             \<and> (case taskLoop_step env_coerce h2 s2 of
                   None \<Rightarrow> False
                 | Some (h3, s3, a3, e3) \<Rightarrow>
                     queue s3 = [a2] \<and> \<not> HasTask s3 ''7''
                     \<and> (case addTask env_coerce h3 s3 ''7'' TASK_ACTION_AUDIT of
                           (h4, s4, a4, e4) \<Rightarrow> e4 = None \<and> queue s4 = [a2, a4]))))"
  by (simp add: sample_defs addTask_def taskLoop_step_def do_def audit_defs HasTask_def
      Sprintf_d.simps digit_def)



end
